theory Spec2Isabelle
  imports Main "HOL-Library.Sublist"
begin

section \<open>m2h: a Markdown to HTML converter with a table of contents\<close>

text \<open>
  The development follows \<^verbatim>\<open>m2h.cpp\<close>. A \<^verbatim>\<open>std::string\<close> is a \<^typ>\<open>string\<close>
  (a list of bytes), \<^verbatim>\<open>std::vector\<close> is a list, \<^verbatim>\<open>std::map<std::string, int>\<close> is a
  partial map, and the variables that the scanner loop mutates are the fields of a record
  that each step returns updated. The program never calls \<^verbatim>\<open>setlocale\<close>, so the
  character classification functions are those of the "C" locale.
\<close>

subsection \<open>Characters and string literals\<close>

definition dq :: char where
  "dq = CHR 0x22"

text \<open>A string between double quotes, as the literals of the source have them.\<close>

definition quoted :: "string \<Rightarrow> string" where
  "quoted s = [dq] @ s @ [dq]"

definition backtick :: char where
  "backtick = CHR 0x60"

definition upper_chars :: string where
  "upper_chars = ''ABCDEFGHIJKLMNOPQRSTUVWXYZ''"

definition lower_chars :: string where
  "lower_chars = ''abcdefghijklmnopqrstuvwxyz''"

definition digit_chars :: string where
  "digit_chars = ''0123456789''"

text \<open>\<^verbatim>\<open>::tolower\<close> and \<^verbatim>\<open>isalnum\<close> in the "C" locale: only the ASCII letters change
  case, only the ASCII letters and digits are alphanumeric.\<close>

definition tolower :: "char \<Rightarrow> char" where
  "tolower c = (case map_of (zip upper_chars lower_chars) c of Some l \<Rightarrow> l | None \<Rightarrow> c)"

definition isalnum :: "char \<Rightarrow> bool" where
  "isalnum c \<longleftrightarrow> c \<in> set digit_chars \<or> c \<in> set upper_chars \<or> c \<in> set lower_chars"

text \<open>The class \<^verbatim>\<open>\s\<close> of \<^verbatim>\<open>std::regex\<close> (\<^verbatim>\<open>isspace\<close> in the "C" locale): space and the
  five control characters 0x09 to 0x0D.\<close>

definition isspace :: "char \<Rightarrow> bool" where
  "isspace c \<longleftrightarrow> c \<in> set [CHR '' '', CHR 0x09, CHR ''\<newline>'', CHR 0x0B, CHR 0x0C, CHR 0x0D]"

text \<open>The ECMAScript wildcard \<^verbatim>\<open>.\<close> matches every character but the line terminators
  (line feed and carriage return).\<close>

definition is_line_terminator :: "char \<Rightarrow> bool" where
  "is_line_terminator c \<longleftrightarrow> c = CHR ''\<newline>'' \<or> c = CHR 0x0D"

subsection \<open>Heading records\<close>

record TocEntry =
  level :: int
  entry_text :: string
  entry_id :: string

subsection \<open>The heading id assigner\<close>

text \<open>\<^verbatim>\<open>sanitize_id\<close>: \<^verbatim>\<open>std::transform\<close> with \<^verbatim>\<open>::tolower\<close>, \<^verbatim>\<open>std::replace\<close> of
  \<^verbatim>\<open>' '\<close> by \<^verbatim>\<open>'-'\<close>, then erase/\<^verbatim>\<open>remove_if\<close> of the characters for which the
  lambda returns true.\<close>

definition replace_char :: "char \<Rightarrow> char \<Rightarrow> string \<Rightarrow> string" where
  "replace_char old new s = map (\<lambda>c. if c = old then new else c) s"

definition remove_if :: "(char \<Rightarrow> bool) \<Rightarrow> string \<Rightarrow> string" where
  "remove_if p s = filter (\<lambda>c. \<not> p c) s"

definition sanitize_id :: "string \<Rightarrow> string" where
  "sanitize_id text =
     remove_if (\<lambda>c. \<not> (isalnum c \<or> c = CHR ''-'' \<or> c = CHR ''_''))
       (replace_char CHR '' '' CHR ''-'' (map tolower text))"

text \<open>\<^verbatim>\<open>std::to_string\<close> on an \<^verbatim>\<open>int\<close>: the decimal digits, with a sign for a negative
  value.\<close>

definition digit_char :: "nat \<Rightarrow> char" where
  "digit_char d = digit_chars ! d"

function to_string_nat :: "nat \<Rightarrow> string" where
  "to_string_nat n =
     (if n < 10 then [digit_char n] else to_string_nat (n div 10) @ [digit_char (n mod 10)])"
  by pat_completeness auto
termination
  by (relation "measure (\<lambda>n. n)") auto

declare to_string_nat.simps [simp del]

definition to_string :: "int \<Rightarrow> string" where
  "to_string i = (if i < 0 then CHR ''-'' # to_string_nat (nat (- i)) else to_string_nat (nat i))"

text \<open>\<^verbatim>\<open>generate_unique_id\<close> takes the registry by reference; the model returns the id
  together with the updated registry. The counter is a C++ \<^verbatim>\<open>int\<close>: it starts at 0 and
  is only ever incremented by one per heading, so it is modelled by an unbounded integer
  (the increment would overflow only after \<open>2^31\<close> headings with the same base id).\<close>

definition generate_unique_id :: "string \<Rightarrow> (string \<rightharpoonup> int) \<Rightarrow> string \<times> (string \<rightharpoonup> int)" where
  "generate_unique_id base_id id_counts =
     (let ident = sanitize_id base_id in
      case id_counts ident of
        Some c \<Rightarrow> (let count = c + 1 in (ident @ ''-'' @ to_string count, id_counts(ident \<mapsto> count)))
      | None \<Rightarrow> (ident, id_counts(ident \<mapsto> 0)))"

subsection \<open>Regular expressions of the scanner\<close>

text \<open>
  The scanner uses \<^verbatim>\<open>std::regex\<close> (ECMAScript grammar). Each pattern is modelled by the
  function that decides it. In every pattern the adjacent character classes are disjoint,
  so the greedy match is the only one and a repetition is a \<^const>\<open>takeWhile\<close>.

  \<^verbatim>\<open>regex_match(line, horizontal_rule_regex)\<close> with \<^verbatim>\<open>^\s*[-*_]{3,}\s*$\<close>.
\<close>

definition is_hr_char :: "char \<Rightarrow> bool" where
  "is_hr_char c \<longleftrightarrow> c \<in> set ''-*_''"

definition horizontal_rule_match :: "string \<Rightarrow> bool" where
  "horizontal_rule_match line =
     (let r = dropWhile isspace line in
      3 \<le> length (takeWhile is_hr_char r) \<and> list_all isspace (dropWhile is_hr_char r))"

text \<open>\<^verbatim>\<open>regex_match(line, match, code_block_regex)\<close> with \<^verbatim>\<open>^```(.*)\<close>: the result is the
  capture group 1.\<close>

definition code_block_match :: "string \<Rightarrow> string option" where
  "code_block_match line =
     (if prefix [backtick, backtick, backtick] line \<and> \<not> list_ex is_line_terminator (drop 3 line)
      then Some (drop 3 line) else None)"

text \<open>\<^verbatim>\<open>regex_match(line, match, hN_regex)\<close> with \<^verbatim>\<open>^#{N}\s+(.*)\<close>: the greedy \<^verbatim>\<open>\s+\<close>
  takes the whole run of white space, the capture group is what follows.\<close>

definition heading_match :: "nat \<Rightarrow> string \<Rightarrow> string option" where
  "heading_match n line =
     (if prefix (replicate n CHR ''#'') line then
        (let r = drop n line in
         if takeWhile isspace r \<noteq> [] \<and> \<not> list_ex is_line_terminator (dropWhile isspace r)
         then Some (dropWhile isspace r) else None)
      else None)"

text \<open>\<^verbatim>\<open>regex_match(line, table_divider_regex)\<close> with
  \<^verbatim>\<open>^\s*\|?[-:]+\|[-:\s\|]+\|?\s*$\<close>: the final \<^verbatim>\<open>\|?\s*\<close> only matches characters that
  \<^verbatim>\<open>[-:\s\|]+\<close> matches too, so the tail after the first inner pipe is any non-empty run
  of that class.\<close>

definition is_dash_colon :: "char \<Rightarrow> bool" where
  "is_dash_colon c \<longleftrightarrow> c = CHR ''-'' \<or> c = CHR '':''"

definition is_divider_char :: "char \<Rightarrow> bool" where
  "is_divider_char c \<longleftrightarrow> is_dash_colon c \<or> isspace c \<or> c = CHR ''|''"

definition table_divider_match :: "string \<Rightarrow> bool" where
  "table_divider_match line =
     (let r = dropWhile isspace line;
          r1 = (if prefix ''|'' r then drop 1 r else r);
          r2 = dropWhile is_dash_colon r1
      in takeWhile is_dash_colon r1 \<noteq> [] \<and> prefix ''|'' r2 \<and>
         drop 1 r2 \<noteq> [] \<and> list_all is_divider_char (drop 1 r2))"

subsection \<open>Inline formatting\<close>

text \<open>
  \<^verbatim>\<open>bold_regex\<close>, \<^verbatim>\<open>italic_regex\<close> and \<^verbatim>\<open>inline_code_regex\<close> have one shape: an opening
  delimiter, a non-empty run of characters other than the delimiter character (the capture
  group), and the closing delimiter. \<open>delim_match\<close> decides a match that starts at the
  head of the string and returns the capture group and the text after the match.
\<close>

definition delim_match :: "string \<Rightarrow> char \<Rightarrow> string \<Rightarrow> (string \<times> string) option" where
  "delim_match delim forb s =
     (if prefix delim s then
        (let r = drop (length delim) s;
             inner = takeWhile (\<lambda>c. c \<noteq> forb) r;
             rest = dropWhile (\<lambda>c. c \<noteq> forb) r
         in if inner \<noteq> [] \<and> prefix delim rest then Some (inner, drop (length delim) rest) else None)
      else None)"

lemma delim_match_shorter:
  "delim_match delim forb s = Some (inner, rest) \<Longrightarrow> length rest < length s"
proof -
  assume m: "delim_match delim forb s = Some (inner, rest)"
  let ?r = "drop (length delim) s"
  from m have i: "takeWhile (\<lambda>c. c \<noteq> forb) ?r \<noteq> []"
    and r: "rest = drop (length delim) (dropWhile (\<lambda>c. c \<noteq> forb) ?r)"
    by (auto simp: delim_match_def Let_def split: if_splits)
  have "length (takeWhile (\<lambda>c. c \<noteq> forb) ?r) + length (dropWhile (\<lambda>c. c \<noteq> forb) ?r) = length ?r"
    by (metis length_append takeWhile_dropWhile_id)
  moreover from i have "0 < length (takeWhile (\<lambda>c. c \<noteq> forb) ?r)"
    by simp
  ultimately have "length (dropWhile (\<lambda>c. c \<noteq> forb) ?r) < length ?r"
    by linarith
  with r show ?thesis
    by simp
qed

text \<open>\<^verbatim>\<open>std::regex_replace(s, re, fmt)\<close> for such a pattern with the format
  \<^verbatim>\<open>pre$1post\<close>: the leftmost match is replaced and the search goes on behind it; a
  character at which no match starts is copied.\<close>

function regex_replace_delim :: "string \<Rightarrow> char \<Rightarrow> string \<Rightarrow> string \<Rightarrow> string \<Rightarrow> string" where
  "regex_replace_delim delim forb pre post [] = []"
| "regex_replace_delim delim forb pre post (c # cs) =
     (case delim_match delim forb (c # cs) of
        Some (inner, rest) \<Rightarrow> pre @ inner @ post @ regex_replace_delim delim forb pre post rest
      | None \<Rightarrow> c # regex_replace_delim delim forb pre post cs)"
  by pat_completeness auto
termination
  by (relation "measure (\<lambda>(delim, forb, pre, post, s). length s)")
     (auto dest: delim_match_shorter)

text \<open>\<^verbatim>\<open>link_regex\<close> is \<^verbatim>\<open>\[([^\]]+)\]\(([^\)]+)\)\<close>; the result is the two capture groups
  and the text after the match.\<close>

definition link_match :: "string \<Rightarrow> (string \<times> string \<times> string) option" where
  "link_match s =
     (if prefix ''['' s then
        (let r = drop 1 s;
             label = takeWhile (\<lambda>c. c \<noteq> CHR '']'') r;
             r2 = dropWhile (\<lambda>c. c \<noteq> CHR '']'') r
         in if label \<noteq> [] \<and> prefix '']('' r2 then
              (let r3 = drop 2 r2;
                   url = takeWhile (\<lambda>c. c \<noteq> CHR '')'') r3;
                   r4 = dropWhile (\<lambda>c. c \<noteq> CHR '')'') r3
               in if url \<noteq> [] \<and> prefix '')'' r4 then Some (label, url, drop 1 r4) else None)
            else None)
      else None)"

lemma link_match_shorter:
  "link_match s = Some (label, url, rest) \<Longrightarrow> length rest < length s"
proof -
  assume m: "link_match s = Some (label, url, rest)"
  let ?r2 = "dropWhile (\<lambda>c. c \<noteq> CHR '']'') (drop 1 s)"
  from m have p: "prefix ''['' s"
    and r: "rest = drop 1 (dropWhile (\<lambda>c. c \<noteq> CHR '')'') (drop 2 ?r2))"
    by (auto simp: link_match_def Let_def split: if_splits)
  from p have "s \<noteq> []"
    by auto
  have "length rest \<le> length (drop 2 ?r2)"
    unfolding r using length_dropWhile_le [of "\<lambda>c. c \<noteq> CHR '')''" "drop 2 ?r2"] by simp
  also have "\<dots> \<le> length (drop 1 s)"
    using length_dropWhile_le [of "\<lambda>c. c \<noteq> CHR '']''" "drop 1 s"] by simp
  also have "\<dots> < length s"
    using \<open>s \<noteq> []\<close> by simp
  finally show ?thesis .
qed

function regex_replace_link :: "string \<Rightarrow> string" where
  "regex_replace_link [] = []"
| "regex_replace_link (c # cs) =
     (case link_match (c # cs) of
        Some (label, url, rest) \<Rightarrow>
          ''<a href='' @ [dq] @ url @ [dq] @ ''>'' @ label @ ''</a>'' @ regex_replace_link rest
      | None \<Rightarrow> c # regex_replace_link cs)"
  by pat_completeness auto
termination
  by (relation "measure length") (auto dest: link_match_shorter)

definition replace_bold :: "string \<Rightarrow> string" where
  "replace_bold = regex_replace_delim ''**'' CHR ''*'' ''<strong>'' ''</strong>''"

definition replace_italic :: "string \<Rightarrow> string" where
  "replace_italic = regex_replace_delim ''*'' CHR ''*'' ''<em>'' ''</em>''"

definition replace_inline_code :: "string \<Rightarrow> string" where
  "replace_inline_code = regex_replace_delim [backtick] backtick ''<code>'' ''</code>''"

subsection \<open>Heading text and table rows\<close>

text \<open>\<^verbatim>\<open>std::string::find(needle, pos)\<close> returns the least position not before \<open>pos\<close> at
  which the needle occurs, \<^verbatim>\<open>npos\<close> (here \<open>None\<close>) when there is none;
  \<^verbatim>\<open>erase(pos, n)\<close> removes \<open>n\<close> characters at \<open>pos\<close>.\<close>

fun find_first :: "string \<Rightarrow> string \<Rightarrow> nat option" where
  "find_first needle [] = (if needle = [] then Some 0 else None)"
| "find_first needle (c # cs) =
     (if prefix needle (c # cs) then Some 0 else map_option Suc (find_first needle cs))"

definition string_find :: "string \<Rightarrow> string \<Rightarrow> nat \<Rightarrow> nat option" where
  "string_find s needle pos =
     (if length s < pos then None else map_option (\<lambda>i. pos + i) (find_first needle (drop pos s)))"

definition erase :: "string \<Rightarrow> nat \<Rightarrow> nat \<Rightarrow> string" where
  "erase s pos n = take pos s @ drop (pos + n) s"

lemma find_first_bound:
  "find_first needle s = Some i \<Longrightarrow> i + length needle \<le> length s"
proof (induction s arbitrary: i)
  case Nil
  then show ?case by (simp split: if_splits)
next
  case (Cons c cs)
  show ?case
  proof (cases "prefix needle (c # cs)")
    case True
    with Cons.prems show ?thesis by (auto dest: prefix_length_le)
  next
    case False
    with Cons.prems obtain j where "find_first needle cs = Some j" "i = Suc j"
      by auto
    with Cons.IH show ?thesis by auto
  qed
qed

lemma string_find_bound:
  "string_find s needle pos = Some p \<Longrightarrow> p + length needle \<le> length s"
  by (auto simp: string_find_def split: if_splits dest!: find_first_bound)

text \<open>\<^verbatim>\<open>clean_header_text\<close>: the loop
  \<^verbatim>\<open>while ((pos = text.find("**", pos)) != npos) text.erase(pos, 2);\<close>\<close>

function clean_header_loop :: "string \<Rightarrow> nat \<Rightarrow> string" where
  "clean_header_loop text pos =
     (case string_find text ''**'' pos of
        None \<Rightarrow> text
      | Some p \<Rightarrow> clean_header_loop (erase text p 2) p)"
  by pat_completeness auto
termination
proof (relation "measure (\<lambda>(text, pos). length text)")
  show "wf (measure (\<lambda>(text, pos). length text))"
    by simp
next
  fix s :: string and pos p :: nat
  assume "string_find s ''**'' pos = Some p"
  then have "p + 2 \<le> length s"
    by (auto dest: string_find_bound)
  then show "((erase s p 2, p), (s, pos)) \<in> measure (\<lambda>(text, pos). length text)"
    by (simp add: erase_def)
qed

declare clean_header_loop.simps [simp del]

definition clean_header_text :: "string \<Rightarrow> string" where
  "clean_header_text text = clean_header_loop text 0"

text \<open>\<^verbatim>\<open>process_table_line\<close> removes one leading and then one trailing pipe.\<close>

definition process_table_line :: "string \<Rightarrow> string" where
  "process_table_line line =
     (let processed = (if line \<noteq> [] \<and> hd line = CHR ''|'' then tl line else line)
      in if processed \<noteq> [] \<and> last processed = CHR ''|'' then butlast processed else processed)"

text \<open>The lines that repeated calls of \<^verbatim>\<open>std::getline(stream, line, delim)\<close> deliver: a
  call on an exhausted stream fails, so a delimiter at the very end opens no further
  line.\<close>

function getlines :: "char \<Rightarrow> string \<Rightarrow> string list" where
  "getlines delim [] = []"
| "getlines delim (c # cs) =
     takeWhile (\<lambda>x. x \<noteq> delim) (c # cs) #
       (case dropWhile (\<lambda>x. x \<noteq> delim) (c # cs) of
          [] \<Rightarrow> []
        | d # rest \<Rightarrow> getlines delim rest)"
  by pat_completeness auto
termination
proof (relation "measure (\<lambda>(delim, s). length s)")
  show "wf (measure (\<lambda>(delim, s). length s))"
    by simp
next
  fix delim c d :: char and cs rest :: string
  assume "dropWhile (\<lambda>x. x \<noteq> delim) (c # cs) = d # rest"
  then have "length (d # rest) \<le> length (c # cs)"
    by (metis length_dropWhile_le)
  then show "((delim, rest), (delim, c # cs)) \<in> measure (\<lambda>(delim, s). length s)"
    by simp
qed

text \<open>A cell is trimmed of blanks and tabs on both sides
  (\<^verbatim>\<open>find_first_not_of(" \t")\<close>, \<^verbatim>\<open>find_last_not_of(" \t")\<close>) and then inline-formatted:
  bold, italic, inline code, links, in this order.\<close>

definition is_blank :: "char \<Rightarrow> bool" where
  "is_blank c \<longleftrightarrow> c = CHR '' '' \<or> c = CHR 0x09"

definition trim_cell :: "string \<Rightarrow> string" where
  "trim_cell cell = rev (dropWhile is_blank (rev (dropWhile is_blank cell)))"

definition format_cell :: "string \<Rightarrow> string" where
  "format_cell cell =
     regex_replace_link (replace_inline_code (replace_italic (replace_bold (trim_cell cell))))"

definition parse_table_row :: "string \<Rightarrow> string list" where
  "parse_table_row line = map format_cell (getlines CHR ''|'' (process_table_line line))"

text \<open>The other lines are formatted in the order links, bold, italic, inline code.\<close>

definition format_paragraph :: "string \<Rightarrow> string" where
  "format_paragraph line =
     replace_inline_code (replace_italic (replace_bold (regex_replace_link line)))"

subsection \<open>Rendering a buffered table\<close>

text \<open>The body of the loop over the rows; the pair is the output so far and the flag
  \<^verbatim>\<open>first_row\<close>. The inner loop appends one element per cell.\<close>

definition table_cell_html :: "bool \<Rightarrow> string \<Rightarrow> string" where
  "table_cell_html first_row cell =
     (let tag = (if first_row then ''th'' else ''td'')
      in ''<'' @ tag @ ''>'' @ cell @ ''</'' @ tag @ ''>'')"

definition table_row_step :: "string \<times> bool \<Rightarrow> string list \<Rightarrow> string \<times> bool" where
  "table_row_step acc row =
     (case acc of (out, first_row) \<Rightarrow>
        if row = [] then (out, first_row)
        else (foldl (\<lambda>h cell. h @ table_cell_html first_row cell) (out @ ''<tr>'') row
                @ ''</tr>\<newline>'', False))"

text \<open>The flush inside the loop (source lines 180 to 193) and the flush after the loop
  (lines 251 to 264), each appending to the output so far.\<close>

definition flush_table_mid :: "string \<Rightarrow> string list list \<Rightarrow> string" where
  "flush_table_mid out rows =
     fst (foldl table_row_step (out @ ''<table>\<newline>'', True) rows) @ ''</table>\<newline>''"

definition flush_table_eof :: "string \<Rightarrow> string list list \<Rightarrow> string" where
  "flush_table_eof out rows =
     fst (foldl table_row_step (out @ ''<table>\<newline>'', True) rows) @ ''</table>\<newline>''"

subsection \<open>The scanner\<close>

text \<open>The local variables of \<^verbatim>\<open>markdown_to_html\<close> that live across the iterations of its
  loop, together with the heading sequence \<^verbatim>\<open>toc\<close> that it receives by reference.\<close>

record scanner =
  html :: string
  in_code_block :: bool
  in_table :: bool
  code_lang :: string
  table_rows :: "string list list"
  id_counts :: "string \<rightharpoonup> int"
  toc :: "TocEntry list"

definition scanner_init :: "TocEntry list \<Rightarrow> scanner" where
  "scanner_init toc0 =
     \<lparr>html = [], in_code_block = False, in_table = False, code_lang = [],
      table_rows = [], id_counts = Map.empty, toc = toc0\<rparr>"

text \<open>The element that a heading of level \<open>n\<close> emits. The six branches of the source
  differ in the digit only.\<close>

definition heading_element :: "int \<Rightarrow> string \<Rightarrow> string \<Rightarrow> string" where
  "heading_element n text ident =
     ''<h'' @ to_string n @ '' id='' @ [dq] @ ident @ [dq] @ ''>'' @ text
       @ ''</h'' @ to_string n @ ''>\<newline>''"

definition emit_heading :: "int \<Rightarrow> string \<Rightarrow> scanner \<Rightarrow> scanner" where
  "emit_heading n captured s =
     (let text = clean_header_text captured in
      case generate_unique_id text (id_counts s) of
        (ident, counts) \<Rightarrow>
          s\<lparr>id_counts := counts,
            toc := toc s @ [\<lparr>level = n, entry_text = text, entry_id = ident\<rparr>],
            html := html s @ heading_element n text ident\<rparr>)"

definition emit_paragraph :: "string \<Rightarrow> scanner \<Rightarrow> scanner" where
  "emit_paragraph line s =
     (let processed_line = format_paragraph line in
      if processed_line \<noteq> [] then s\<lparr>html := html s @ ''<p>'' @ processed_line @ ''</p>\<newline>''\<rparr>
      else s)"

text \<open>Source lines 198 to 246: the chain of the six heading patterns, then the
  paragraph.\<close>

definition scan_heading_or_text :: "string \<Rightarrow> scanner \<Rightarrow> scanner" where
  "scan_heading_or_text line s =
     (case heading_match 1 line of Some m \<Rightarrow> emit_heading 1 m s | None \<Rightarrow>
     (case heading_match 2 line of Some m \<Rightarrow> emit_heading 2 m s | None \<Rightarrow>
     (case heading_match 3 line of Some m \<Rightarrow> emit_heading 3 m s | None \<Rightarrow>
     (case heading_match 4 line of Some m \<Rightarrow> emit_heading 4 m s | None \<Rightarrow>
     (case heading_match 5 line of Some m \<Rightarrow> emit_heading 5 m s | None \<Rightarrow>
     (case heading_match 6 line of Some m \<Rightarrow> emit_heading 6 m s | None \<Rightarrow>
      emit_paragraph line s))))))"

text \<open>Source lines 153 to 196: divider, table row, or flush of the buffered table. Only
  the first two can end the iteration (\<^verbatim>\<open>continue\<close>); in all other cases the line goes on
  to the heading patterns.\<close>

definition scan_table :: "string \<Rightarrow> scanner \<Rightarrow> scanner" where
  "scan_table line s =
     (if table_divider_match line then
        (if \<not> in_table s \<and> table_rows s \<noteq> [] then s\<lparr>in_table := True\<rparr>
         else scan_heading_or_text line s)
      else if CHR ''|'' \<in> set line then
        s\<lparr>table_rows := table_rows s @ [parse_table_row line]\<rparr>
      else if in_table s then
        scan_heading_or_text line
          (s\<lparr>html := flush_table_mid (html s) (table_rows s), table_rows := [], in_table := False\<rparr>)
      else scan_heading_or_text line s)"

text \<open>One iteration of the loop, source lines 122 to 247.\<close>

definition scan_line :: "scanner \<Rightarrow> string \<Rightarrow> scanner" where
  "scan_line s line =
     (if line = [] then s
      else if horizontal_rule_match line then s\<lparr>html := html s @ ''<hr>\<newline>''\<rparr>
      else case code_block_match line of
        Some lang \<Rightarrow>
          (if \<not> in_code_block s then
             s\<lparr>in_code_block := True, code_lang := lang,
               html := html s @ ''<pre><code''
                 @ (if lang = [] then [] else '' class='' @ [dq] @ ''language-'' @ lang @ [dq])
                 @ ''>\<newline>''\<rparr>
           else s\<lparr>in_code_block := False, html := html s @ ''</code></pre>\<newline>''\<rparr>)
      | None \<Rightarrow>
          (if in_code_block s then s\<lparr>html := html s @ line @ ''\<newline>''\<rparr>
           else scan_table line s))"

definition scan_lines :: "scanner \<Rightarrow> string list \<Rightarrow> scanner" where
  "scan_lines s ls = foldl scan_line s ls"

text \<open>After the loop a table that is still active is flushed.\<close>

definition scan_finish :: "scanner \<Rightarrow> string" where
  "scan_finish s =
     (if in_table s \<and> table_rows s \<noteq> [] then flush_table_eof (html s) (table_rows s) else html s)"

definition markdown_to_html :: "string \<Rightarrow> TocEntry list \<Rightarrow> string \<times> TocEntry list" where
  "markdown_to_html markdown toc0 =
     (let s = scan_lines (scanner_init toc0) (getlines CHR ''\<newline>'' markdown)
      in (scan_finish s, toc s))"

subsection \<open>The table of contents\<close>

text \<open>The two inner loops of \<^verbatim>\<open>generate_toc_html\<close> on the output so far and
  \<^verbatim>\<open>current_level\<close>; the loop after the headings is the second one with target 1.\<close>

function open_levels :: "string \<Rightarrow> int \<Rightarrow> int \<Rightarrow> string \<times> int" where
  "open_levels out current_level target =
     (if current_level < target then open_levels (out @ ''<ul>\<newline>'') (current_level + 1) target
      else (out, current_level))"
  by pat_completeness auto
termination
  by (relation "measure (\<lambda>(out, current_level, target). nat (target - current_level))") auto

function close_levels :: "string \<Rightarrow> int \<Rightarrow> int \<Rightarrow> string \<times> int" where
  "close_levels out current_level target =
     (if current_level > target then close_levels (out @ ''</ul>\<newline>'') (current_level - 1) target
      else (out, current_level))"
  by pat_completeness auto
termination
  by (relation "measure (\<lambda>(out, current_level, target). nat (current_level - target))") auto

declare open_levels.simps [simp del] close_levels.simps [simp del]

definition toc_item :: "TocEntry \<Rightarrow> string" where
  "toc_item entry =
     ''<li><a href='' @ [dq] @ ''#'' @ entry_id entry @ [dq] @ '' data-id='' @ [dq]
       @ entry_id entry @ [dq] @ ''>'' @ entry_text entry @ ''</a></li>\<newline>''"

definition toc_entry_step :: "string \<times> int \<Rightarrow> TocEntry \<Rightarrow> string \<times> int" where
  "toc_entry_step acc entry =
     (case acc of (out, current_level) \<Rightarrow>
       (case open_levels out current_level (level entry) of (out1, level1) \<Rightarrow>
         (case close_levels out1 level1 (level entry) of (out2, level2) \<Rightarrow>
            (out2 @ toc_item entry, level2))))"

definition toc_header :: string where
  "toc_header = ''<div class='' @ [dq] @ ''toc'' @ [dq]
     @ ''>\<newline><h2>Table of Contents</h2>\<newline><ul>\<newline>''"

definition toc_footer :: string where
  "toc_footer = ''</ul>\<newline></div>\<newline>''"

definition generate_toc_html :: "TocEntry list \<Rightarrow> string" where
  "generate_toc_html entries =
     (if entries = [] then []
      else case foldl toc_entry_step (toc_header, 1) entries of (out, current_level) \<Rightarrow>
           fst (close_levels out current_level 1) @ toc_footer)"

subsection \<open>The page\<close>

definition generate_html_template :: "string \<Rightarrow> string \<Rightarrow> string \<Rightarrow> string" where
  "generate_html_template title toc_html content_html =
     concat
      [''<!DOCTYPE html>\<newline><html lang='', quoted ''en'', ''>\<newline><head>\<newline>'',
       ''    <meta charset='', quoted ''UTF-8'', ''>\<newline>'',
       ''    <meta name='', quoted ''viewport'', '' content='',
       quoted ''width=device-width, initial-scale=1.0'', ''>\<newline>'',
       ''    <title>'', title, ''</title>\<newline>'',
       ''    <link rel='', quoted ''stylesheet'', '' href='', quoted ''styles.css'',
       ''>\<newline></head>\<newline><body>\<newline>'',
       toc_html,
       ''\<newline>    <div class='', quoted ''content'', ''>\<newline>'',
       content_html,
       ''\<newline>    </div>\<newline>    <script src='', quoted ''script.js'',
       ''></script>\<newline></body>\<newline></html>\<newline>'']"

text \<open>Source line 593: \<^verbatim>\<open>toc.empty() ? "Document" : toc[0].text\<close>.\<close>

definition page_title :: "TocEntry list \<Rightarrow> string" where
  "page_title entries = (if entries = [] then ''Document'' else entry_text (entries ! 0))"

text \<open>What \<^verbatim>\<open>main\<close> computes from the content of the input file and writes to the output
  path.\<close>

definition render_page :: "string \<Rightarrow> string" where
  "render_page markdown_content =
     (case markdown_to_html markdown_content [] of (html_content, entries) \<Rightarrow>
        generate_html_template (page_title entries) (generate_toc_html entries) html_content)"

subsection \<open>The command line\<close>

definition help_text :: string where
  "help_text =
     concat
      [''Uso: m2h -m archivo.md -o salida.html\<newline>'',
       ''Convierte archivos Markdown a HTML con tabla de contenidos\<newline>\<newline>'',
       ''Opciones:\<newline>'',
       ''  -m, --markdown <archivo>  Archivo Markdown de entrada\<newline>'',
       ''  -o, --output <archivo>    Archivo HTML de salida\<newline>'',
       ''  -h, --help                Muestra este mensaje de ayuda\<newline>'']"

text \<open>The two paths that \<^verbatim>\<open>parse_args\<close> sets through its reference parameters, and the
  text written so far to \<^verbatim>\<open>std::cout\<close> and to \<^verbatim>\<open>std::cerr\<close>. \<^verbatim>\<open>show_help\<close> writes to
  \<^verbatim>\<open>std::cout\<close>.\<close>

record cli =
  markdown_path :: string
  output_path :: string
  cout :: string
  cerr :: string

definition show_help :: "cli \<Rightarrow> cli" where
  "show_help st = st\<lparr>cout := cout st @ help_text\<rparr>"

text \<open>The loop of \<^verbatim>\<open>parse_args\<close> on the arguments from index \<open>i\<close> on; \<open>rest \<noteq> []\<close> is
  \<^verbatim>\<open>i + 1 < argc\<close>. The boolean is false when the loop returned false (help requested).\<close>

definition is_help_flag :: "string \<Rightarrow> bool" where
  "is_help_flag arg \<longleftrightarrow> arg = ''-h'' \<or> arg = ''--help''"

definition is_markdown_flag :: "string \<Rightarrow> bool" where
  "is_markdown_flag arg \<longleftrightarrow> arg = ''-m'' \<or> arg = ''--markdown''"

definition is_output_flag :: "string \<Rightarrow> bool" where
  "is_output_flag arg \<longleftrightarrow> arg = ''-o'' \<or> arg = ''--output''"

fun parse_loop :: "string list \<Rightarrow> cli \<Rightarrow> bool \<times> cli" where
  "parse_loop [] st = (True, st)"
| "parse_loop (arg # rest) st =
     (if is_help_flag arg then (False, show_help st)
      else if is_markdown_flag arg \<and> rest \<noteq> [] then
        parse_loop (tl rest) (st\<lparr>markdown_path := hd rest\<rparr>)
      else if is_output_flag arg \<and> rest \<noteq> [] then
        parse_loop (tl rest) (st\<lparr>output_path := hd rest\<rparr>)
      else parse_loop rest st)"

definition missing_flags_message :: string where
  "missing_flags_message = ''Error: Se requieren tanto el archivo de entrada como el de salida\<newline>''"

definition parse_args :: "string list \<Rightarrow> cli \<Rightarrow> bool \<times> cli" where
  "parse_args argv st =
     (case parse_loop (drop 1 argv) st of
        (False, st1) \<Rightarrow> (False, st1)
      | (True, st1) \<Rightarrow>
          if markdown_path st1 = [] \<or> output_path st1 = [] then
            (False, show_help (st1\<lparr>cerr := cerr st1 @ missing_flags_message\<rparr>))
          else (True, st1))"

text \<open>The file system as \<^verbatim>\<open>main\<close> sees it: the answers of the library calls it makes.
  \<open>None\<close> and \<open>False\<close> in \<open>fs_exists\<close> and \<open>fs_create_directories\<close> stand for a
  \<^verbatim>\<open>filesystem_error\<close>, which \<^verbatim>\<open>main\<close> does not catch. \<open>fs_read\<close> is the content of a
  file that can be opened for reading, \<open>fs_can_write\<close> says whether a file can be opened
  for writing.\<close>

record filesystem =
  fs_exists :: "string \<Rightarrow> bool option"
  fs_read :: "string \<Rightarrow> string option"
  fs_create_directories :: "string \<Rightarrow> bool"
  fs_can_write :: "string \<Rightarrow> bool"
  fs_parent_path :: "string \<Rightarrow> string"
  fs_append :: "string \<Rightarrow> string \<Rightarrow> string"

text \<open>A run of the program: the exit status (\<open>None\<close> when an uncaught exception ends
  it), the two output streams, the input files opened and the files written.\<close>

record run =
  exit_status :: "int option"
  run_cout :: string
  run_cerr :: string
  files_read :: "string list"
  files_written :: "(string \<times> string) list"

definition backslash :: char where
  "backslash = CHR 0x5C"

text \<open>\<^verbatim>\<open>operator<<\<close> on a path writes it quoted.\<close>

definition show_path :: "string \<Rightarrow> string" where
  "show_path p =
     [dq] @ concat (map (\<lambda>c. if c = dq \<or> c = backslash then [backslash, c] else [c]) p) @ [dq]"

definition write_file :: "filesystem \<Rightarrow> string \<Rightarrow> string \<Rightarrow> run \<Rightarrow> bool \<times> run" where
  "write_file fs path content r =
     (if \<not> fs_can_write fs path then
        (False, r\<lparr>run_cerr := run_cerr r @ ''Error: Could not open file '' @ show_path path
                     @ '' for writing\<newline>''\<rparr>)
      else (True, r\<lparr>files_written := files_written r @ [(path, content)]\<rparr>))"

definition exit_with :: "int \<Rightarrow> run \<Rightarrow> run" where
  "exit_with code r = r\<lparr>exit_status := Some code\<rparr>"

text \<open>Source lines 596 to 615, after the page has been computed. \<open>css\<close> and \<open>js\<close> are
  the fixed texts that \<^verbatim>\<open>generate_css\<close> and \<^verbatim>\<open>generate_js\<close> return.\<close>

definition write_outputs :: "filesystem \<Rightarrow> string \<Rightarrow> string \<Rightarrow> string \<Rightarrow> string \<Rightarrow> string \<Rightarrow> run \<Rightarrow> run" where
  "write_outputs fs css js out_path output_dir page r =
     (case write_file fs out_path page r of
        (False, r1) \<Rightarrow> exit_with 1 r1
      | (True, r1) \<Rightarrow>
          (let css_path = fs_append fs output_dir ''styles.css'' in
           case write_file fs css_path css r1 of
             (False, r2) \<Rightarrow> exit_with 1 r2
           | (True, r2) \<Rightarrow>
               (let js_path = fs_append fs output_dir ''script.js'' in
                case write_file fs js_path js r2 of
                  (False, r3) \<Rightarrow> exit_with 1 r3
                | (True, r3) \<Rightarrow>
                    exit_with 0
                      (r3\<lparr>run_cout := run_cout r3 @ concat
                           [''Successfully generated:\<newline>'',
                            ''  HTML: '', show_path out_path, ''\<newline>'',
                            ''  CSS: '', show_path css_path, ''\<newline>'',
                            ''  JS: '', show_path js_path, ''\<newline>'']\<rparr>))))"

definition main :: "filesystem \<Rightarrow> string \<Rightarrow> string \<Rightarrow> string list \<Rightarrow> run" where
  "main fs css js argv =
     (case parse_args argv \<lparr>markdown_path = [], output_path = [], cout = [], cerr = []\<rparr> of
        (ok, st) \<Rightarrow>
          (let r = \<lparr>exit_status = None, run_cout = cout st, run_cerr = cerr st,
                    files_read = [], files_written = []\<rparr>
           in if \<not> ok then exit_with 1 r
              else case fs_exists fs (markdown_path st) of
                None \<Rightarrow> r
              | Some False \<Rightarrow>
                  exit_with 1 (r\<lparr>run_cerr := run_cerr r @ ''Error: El archivo de entrada no existe: ''
                                   @ show_path (markdown_path st) @ ''\<newline>''\<rparr>)
              | Some True \<Rightarrow>
                  (case fs_read fs (markdown_path st) of
                     None \<Rightarrow>
                       exit_with 1 (r\<lparr>run_cerr := run_cerr r @ ''Error: Could not open input file ''
                                        @ show_path (markdown_path st) @ ''\<newline>''\<rparr>)
                   | Some markdown_content \<Rightarrow>
                       (let r1 = r\<lparr>files_read := [markdown_path st]\<rparr>;
                            page = render_page markdown_content;
                            output_dir = fs_parent_path fs (output_path st)
                        in if output_dir \<noteq> [] \<and> fs_exists fs output_dir = None then r1
                           else if output_dir \<noteq> [] \<and> fs_exists fs output_dir = Some False
                                   \<and> \<not> fs_create_directories fs output_dir then r1
                           else write_outputs fs css js (output_path st) output_dir page r1))))"

section \<open>Properties\<close>

subsection \<open>Rendering of a buffered table\<close>

text \<open>The table as the specification describes it: the first row as header cells, every
  further row as body cells.\<close>

definition spec_row_html :: "string \<Rightarrow> string list \<Rightarrow> string" where
  "spec_row_html tag cells =
     ''<tr>'' @ concat (map (\<lambda>cell. ''<'' @ tag @ ''>'' @ cell @ ''</'' @ tag @ ''>'') cells)
       @ ''</tr>\<newline>''"

definition spec_table_html :: "string list list \<Rightarrow> string" where
  "spec_table_html rows =
     ''<table>\<newline>''
     @ (case rows of [] \<Rightarrow> [] | r # rs \<Rightarrow> spec_row_html ''th'' r @ concat (map (spec_row_html ''td'') rs))
     @ ''</table>\<newline>''"

lemma foldl_append_cells:
  "foldl (\<lambda>h cell. h @ f cell) init row = init @ concat (map f row)"
  by (induction row arbitrary: init) simp_all

lemma table_row_step_nonempty:
  "row \<noteq> [] \<Longrightarrow>
   table_row_step (out, first_row) row =
     (out @ spec_row_html (if first_row then ''th'' else ''td'') row, False)"
  by (simp add: table_row_step_def foldl_append_cells spec_row_html_def table_cell_html_def)

lemma table_row_step_empty: "table_row_step acc [] = acc"
  by (simp add: table_row_step_def split: prod.splits)

lemma foldl_table_rows_body:
  "foldl table_row_step (out, False) rows =
     (out @ concat (map (spec_row_html ''td'') (filter (\<lambda>r. r \<noteq> []) rows)), False)"
proof (induction rows arbitrary: out)
  case Nil
  show ?case by simp
next
  case (Cons r rows)
  show ?case
  proof (cases "r = []")
    case True
    then show ?thesis using Cons.IH by (simp add: table_row_step_empty)
  next
    case False
    then show ?thesis using Cons.IH by (simp add: table_row_step_nonempty)
  qed
qed

lemma foldl_table_rows_header:
  "fst (foldl table_row_step (out, True) rows) =
     out @ (case filter (\<lambda>r. r \<noteq> []) rows of
              [] \<Rightarrow> []
            | r # rs \<Rightarrow> spec_row_html ''th'' r @ concat (map (spec_row_html ''td'') rs))"
proof (induction rows)
  case Nil
  show ?case by simp
next
  case (Cons r rows)
  show ?case
  proof (cases "r = []")
    case True
    then show ?thesis using Cons.IH by (simp add: table_row_step_empty)
  next
    case False
    then show ?thesis by (simp add: table_row_step_nonempty foldl_table_rows_body)
  qed
qed

lemma flush_table_mid_spec:
  "flush_table_mid out rows = out @ spec_table_html (filter (\<lambda>r. r \<noteq> []) rows)"
  by (simp add: flush_table_mid_def foldl_table_rows_header spec_table_html_def)

lemma flush_table_eof_spec:
  "flush_table_eof out rows = out @ spec_table_html (filter (\<lambda>r. r \<noteq> []) rows)"
  by (simp add: flush_table_eof_def foldl_table_rows_header spec_table_html_def)

text \<open>
  The claim as written (C7, with the first buffered row as the header and all later rows
  as body cells) fails when the first buffered row is empty: the line \<^verbatim>\<open>|\<close> is buffered as
  a row without cells, the loop skips it, and the row after it becomes the header.
\<close>

theorem table_flush_first_row_counterexample:
  "\<not> (\<forall>out rows. flush_table_eof out rows = out @ spec_table_html rows)
   \<and> table_rows (scan_lines (scanner_init []) [''|'', ''-|-'', ''a|b'']) = [[], [''a'', ''b'']]
   \<and> fst (markdown_to_html ''|\<newline>-|-\<newline>a|b'' [])
       = ''<table>\<newline><tr><th>a</th><th>b</th></tr>\<newline></table>\<newline>''"
proof -
  have "flush_table_eof [] [[], [''a'', ''b'']] \<noteq> [] @ spec_table_html [[], [''a'', ''b'']]"
    by code_simp
  then have "\<not> (\<forall>out rows. flush_table_eof out rows = out @ spec_table_html rows)"
    by blast
  moreover have "table_rows (scan_lines (scanner_init []) [''|'', ''-|-'', ''a|b'']) = [[], [''a'', ''b'']]"
    by code_simp
  moreover have "fst (markdown_to_html ''|\<newline>-|-\<newline>a|b'' [])
       = ''<table>\<newline><tr><th>a</th><th>b</th></tr>\<newline></table>\<newline>''"
    by code_simp
  ultimately show ?thesis
    by blast
qed

subsection \<open>The scanner only appends\<close>

text \<open>The element that the scanner emits for a heading record, and the relation between
  the scanner before and after a line: the output grows at its end, and the heading
  sequence either stays or grows by one record whose element ends the output.\<close>

definition heading_of :: "TocEntry \<Rightarrow> string" where
  "heading_of e = heading_element (level e) (entry_text e) (entry_id e)"

definition grows :: "scanner \<Rightarrow> scanner \<Rightarrow> bool" where
  "grows s s' \<longleftrightarrow>
     (\<exists>x. html s' = html s @ x \<and> toc s' = toc s) \<or>
     (\<exists>x e. html s' = html s @ x @ heading_of e \<and> toc s' = toc s @ [e] \<and> 1 \<le> level e \<and> level e \<le> 6)"

lemma emit_heading_fields:
  "in_code_block (emit_heading n c s) = in_code_block s"
  "in_table (emit_heading n c s) = in_table s"
  "table_rows (emit_heading n c s) = table_rows s"
  "code_lang (emit_heading n c s) = code_lang s"
  by (simp_all add: emit_heading_def Let_def split: prod.splits)

lemma emit_heading_out:
  "toc (emit_heading n c s) =
     toc s @ [\<lparr>level = n, entry_text = clean_header_text c,
               entry_id = fst (generate_unique_id (clean_header_text c) (id_counts s))\<rparr>]"
  "html (emit_heading n c s) =
     html s @ heading_element n (clean_header_text c)
       (fst (generate_unique_id (clean_header_text c) (id_counts s)))"
  "id_counts (emit_heading n c s) = snd (generate_unique_id (clean_header_text c) (id_counts s))"
  by (simp_all add: emit_heading_def Let_def split: prod.splits)

lemma emit_paragraph_fields:
  "in_code_block (emit_paragraph l s) = in_code_block s"
  "in_table (emit_paragraph l s) = in_table s"
  "table_rows (emit_paragraph l s) = table_rows s"
  "toc (emit_paragraph l s) = toc s"
  "id_counts (emit_paragraph l s) = id_counts s"
  by (simp_all add: emit_paragraph_def Let_def)

lemma emit_paragraph_html:
  "\<exists>x. html (emit_paragraph l s) = html s @ x"
  by (simp add: emit_paragraph_def Let_def)

lemma grows_emit_heading:
  "1 \<le> n \<Longrightarrow> n \<le> 6 \<Longrightarrow> html s = html s0 @ y \<Longrightarrow> toc s = toc s0 \<Longrightarrow> grows s0 (emit_heading n c s)"
  unfolding grows_def
  by (rule disjI2) (simp add: emit_heading_out heading_of_def)

lemma grows_emit_paragraph:
  "html s = html s0 @ y \<Longrightarrow> toc s = toc s0 \<Longrightarrow> grows s0 (emit_paragraph l s)"
  unfolding grows_def
  using emit_paragraph_html [of l s] by (auto simp: emit_paragraph_fields)

lemma grows_heading_or_text:
  "html s = html s0 @ y \<Longrightarrow> toc s = toc s0 \<Longrightarrow> grows s0 (scan_heading_or_text l s)"
  unfolding scan_heading_or_text_def
  by (auto split: option.splits intro!: grows_emit_heading grows_emit_paragraph)

lemma heading_or_text_fields:
  "in_code_block (scan_heading_or_text l s) = in_code_block s"
  "in_table (scan_heading_or_text l s) = in_table s"
  "table_rows (scan_heading_or_text l s) = table_rows s"
  unfolding scan_heading_or_text_def
  by (simp_all add: emit_heading_fields emit_paragraph_fields split: option.splits)

lemma flush_table_mid_append: "\<exists>x. flush_table_mid out rows = out @ x"
  by (simp add: flush_table_mid_spec)

lemma grows_scan_table: "grows s (scan_table l s)"
  unfolding scan_table_def
  using flush_table_mid_append [of "html s" "table_rows s"]
  apply (auto intro!: grows_heading_or_text)
  apply (auto simp: grows_def)
  done

lemma grows_scan_line: "grows s (scan_line s l)"
  unfolding scan_line_def
  by (auto simp: grows_scan_table split: option.splits) (auto simp: grows_def)

subsection \<open>The two flushes of a table\<close>

lemma scan_line_flush:
  assumes "in_table s" and "\<not> in_code_block s"
    and "line \<noteq> []" and "\<not> horizontal_rule_match line" and "code_block_match line = None"
    and "\<not> table_divider_match line" and "CHR ''|'' \<notin> set line"
  shows "scan_line s line =
           scan_heading_or_text line
             (s\<lparr>html := flush_table_mid (html s) (table_rows s), table_rows := [], in_table := False\<rparr>)"
  using assms by (simp add: scan_line_def scan_table_def)

text \<open>
  C7, amended. The flush after the loop and the flush inside the loop render the same rows
  to the same HTML: the first non-empty buffered row as header cells, every later non-empty
  row as body cells, and nothing for a row without cells. When a table is active, the end
  of the document appends this table, and a line that triggers the flush (not blank, no
  rule, no fence, no divider, no pipe) appends the same table before the line itself is
  processed, with the buffer cleared and table mode left.
\<close>

theorem table_flush_same_html:
  assumes "in_table s" and "table_rows s \<noteq> []" and "\<not> in_code_block s"
    and "line \<noteq> []" and "\<not> horizontal_rule_match line" and "code_block_match line = None"
    and "\<not> table_divider_match line" and "CHR ''|'' \<notin> set line"
  shows "flush_table_eof out rows = flush_table_mid out rows
    \<and> flush_table_mid out rows = out @ spec_table_html (filter (\<lambda>r. r \<noteq> []) rows)
    \<and> scan_finish s = html s @ spec_table_html (filter (\<lambda>r. r \<noteq> []) (table_rows s))
    \<and> scan_line s line =
          scan_heading_or_text line
            (s\<lparr>html := html s @ spec_table_html (filter (\<lambda>r. r \<noteq> []) (table_rows s)),
               table_rows := [], in_table := False\<rparr>)
    \<and> prefix (html s @ spec_table_html (filter (\<lambda>r. r \<noteq> []) (table_rows s))) (html (scan_line s line))
    \<and> table_rows (scan_line s line) = [] \<and> in_table (scan_line s line) = False"
proof -
  let ?t = "spec_table_html (filter (\<lambda>r. r \<noteq> []) (table_rows s))"
  let ?s1 = "s\<lparr>html := html s @ ?t, table_rows := [], in_table := False\<rparr>"
  have eq: "flush_table_eof out rows = flush_table_mid out rows"
    by (simp add: flush_table_eof_spec flush_table_mid_spec)
  have fin: "scan_finish s = html s @ ?t"
    using assms(1,2) by (simp add: scan_finish_def flush_table_eof_spec)
  have step: "scan_line s line = scan_heading_or_text line ?s1"
    using scan_line_flush [OF assms(1) assms(3-8)] by (simp add: flush_table_mid_spec)
  have "grows ?s1 (scan_heading_or_text line ?s1)"
    by (rule grows_heading_or_text [where y = "[]"]) simp_all
  then have pre: "prefix (html s @ ?t) (html (scan_line s line))"
    unfolding step by (auto simp: grows_def)
  have flds: "table_rows (scan_line s line) = [] \<and> in_table (scan_line s line) = False"
    unfolding step by (simp add: heading_or_text_fields)
  from eq fin step pre flds show ?thesis
    by (simp add: flush_table_mid_spec)
qed

text \<open>A state with an active table of two rows, and the line \<^verbatim>\<open>end\<close> after it.\<close>

definition table_state :: scanner where
  "table_state = scan_lines (scanner_init []) [''h1|h2'', ''--|--'', ''a|b'']"

theorem table_flush_same_html_witness:
  "in_table table_state \<and> table_rows table_state = [[''h1'', ''h2''], [''a'', ''b'']]
   \<and> \<not> in_code_block table_state
   \<and> scan_finish table_state
       = ''<table>\<newline><tr><th>h1</th><th>h2</th></tr>\<newline><tr><td>a</td><td>b</td></tr>\<newline></table>\<newline>''
   \<and> prefix (scan_finish table_state) (html (scan_line table_state ''end''))
   \<and> table_rows (scan_line table_state ''end'') = []"
proof -
  have h1: "in_table table_state" by code_simp
  have h2: "table_rows table_state \<noteq> []" by code_simp
  have h3: "\<not> in_code_block table_state" by code_simp
  have h4: "''end'' \<noteq> []" by simp
  have h5: "\<not> horizontal_rule_match ''end''" by code_simp
  have h6: "code_block_match ''end'' = None" by code_simp
  have h7: "\<not> table_divider_match ''end''" by code_simp
  have h8: "CHR ''|'' \<notin> set ''end''" by simp
  have rows: "table_rows table_state = [[''h1'', ''h2''], [''a'', ''b'']]" by code_simp
  have h: "html table_state = []" by code_simp
  have t: "spec_table_html [[''h1'', ''h2''], [''a'', ''b'']]
     = ''<table>\<newline><tr><th>h1</th><th>h2</th></tr>\<newline><tr><td>a</td><td>b</td></tr>\<newline></table>\<newline>''"
    by code_simp
  from table_flush_same_html [OF h1 h2 h3 h4 h5 h6 h7 h8]
  have "scan_finish table_state = html table_state @ spec_table_html (filter (\<lambda>r. r \<noteq> []) (table_rows table_state))"
    and "prefix (html table_state @ spec_table_html (filter (\<lambda>r. r \<noteq> []) (table_rows table_state)))
           (html (scan_line table_state ''end''))"
    and "table_rows (scan_line table_state ''end'') = []"
    by blast+
  with h1 h3 rows h t show ?thesis
    by simp
qed

subsection \<open>The table of contents tracks the heading levels\<close>

text \<open>The builder as the specification describes it, as a sequence of events: from the
  current depth, one nesting level is opened per unit below the level of the heading or
  closed per unit above it, then the item is emitted; after the last heading the levels
  above depth 1 are closed.\<close>

datatype toc_event = Open_level | Close_level | Item TocEntry

definition level_change :: "int \<Rightarrow> int \<Rightarrow> toc_event list" where
  "level_change depth target =
     replicate (nat (target - depth)) Open_level @ replicate (nat (depth - target)) Close_level"

fun spec_toc_events :: "int \<Rightarrow> TocEntry list \<Rightarrow> toc_event list" where
  "spec_toc_events depth [] = replicate (nat (depth - 1)) Close_level"
| "spec_toc_events depth (e # es) = level_change depth (level e) @ Item e # spec_toc_events (level e) es"

fun render_event :: "toc_event \<Rightarrow> string" where
  "render_event Open_level = ''<ul>\<newline>''"
| "render_event Close_level = ''</ul>\<newline>''"
| "render_event (Item e) = toc_item e"



lemma open_levels_eq:
  "open_levels out d target =
     (out @ concat (replicate (nat (target - d)) ''<ul>\<newline>''), max d target)"
proof (induction out d target rule: open_levels.induct)
  case (1 out d target)
  show ?case
  proof (cases "d < target")
    case True
    then have n: "nat (target - d) = Suc (nat (target - (d + 1)))"
      by simp
    from True show ?thesis
      by (subst open_levels.simps) (simp add: "1.IH" n del: replicate.simps, simp)
  next
    case False
    then show ?thesis
      by (subst open_levels.simps) simp
  qed
qed

lemma close_levels_eq:
  "close_levels out d target =
     (out @ concat (replicate (nat (d - target)) ''</ul>\<newline>''), min d target)"
proof (induction out d target rule: close_levels.induct)
  case (1 out d target)
  show ?case
  proof (cases "d > target")
    case True
    then have n: "nat (d - target) = Suc (nat (d - 1 - target))"
      by simp
    from True show ?thesis
      by (subst close_levels.simps) (simp add: "1.IH" n del: replicate.simps, simp)
  next
    case False
    then show ?thesis
      by (subst close_levels.simps) simp
  qed
qed

lemma render_level_change:
  "concat (map render_event (level_change d target)) =
     concat (replicate (nat (target - d)) ''<ul>\<newline>'')
     @ concat (replicate (nat (d - target)) ''</ul>\<newline>'')"
  by (simp add: level_change_def map_replicate_const)

lemma toc_entry_step_eq:
  "toc_entry_step (out, d) e =
     (out @ concat (map render_event (level_change d (level e))) @ toc_item e, level e)"
proof (cases "d < level e")
  case True
  then show ?thesis
    by (simp add: toc_entry_step_def open_levels_eq close_levels_eq render_level_change)
next
  case False
  then show ?thesis
    by (simp add: toc_entry_step_def open_levels_eq close_levels_eq render_level_change)
qed

lemma toc_loop_eq:
  "fst (case foldl toc_entry_step (out, d) es of (h, c) \<Rightarrow> close_levels h c 1) =
     out @ concat (map render_event (spec_toc_events d es))"
proof (induction es arbitrary: out d)
  case Nil
  show ?case
    by (simp add: close_levels_eq map_replicate_const)
next
  case (Cons e es)
  show ?case
    by (simp add: toc_entry_step_eq Cons.IH)
qed

lemma generate_toc_html_eq:
  "entries \<noteq> [] \<Longrightarrow>
   generate_toc_html entries =
     toc_header @ concat (map render_event (spec_toc_events 1 entries)) @ toc_footer"
  using toc_loop_eq [of toc_header 1 entries]
  by (simp add: generate_toc_html_def split: prod.splits)












subsection \<open>The links of the table of contents\<close>







lemma sublist_concat: "x \<in> set xs \<Longrightarrow> sublist x (concat xs)"
proof -
  assume "x \<in> set xs"
  then obtain ps ss where "xs = ps @ x # ss"
    by (auto dest: split_list)
  then have "concat xs = concat ps @ x @ concat ss"
    by simp
  then show ?thesis
    by (metis sublist_appendI)
qed



lemma template_contains:
  "sublist toc_html (generate_html_template title toc_html content_html)"
  "sublist content_html (generate_html_template title toc_html content_html)"
  "sublist (''<title>'' @ title @ ''</title>'') (generate_html_template title toc_html content_html)"
proof -
  show "sublist toc_html (generate_html_template title toc_html content_html)"
    unfolding generate_html_template_def by (rule sublist_concat) simp
  show "sublist content_html (generate_html_template title toc_html content_html)"
    unfolding generate_html_template_def by (rule sublist_concat) simp
  let ?pre = "concat [''<!DOCTYPE html>\<newline><html lang='', quoted ''en'', ''>\<newline><head>\<newline>'',
       ''    <meta charset='', quoted ''UTF-8'', ''>\<newline>'',
       ''    <meta name='', quoted ''viewport'', '' content='',
       quoted ''width=device-width, initial-scale=1.0'', ''>\<newline>'', ''    '']"
  let ?post = "concat [''\<newline>'',
       ''    <link rel='', quoted ''stylesheet'', '' href='', quoted ''styles.css'',
       ''>\<newline></head>\<newline><body>\<newline>'',
       toc_html,
       ''\<newline>    <div class='', quoted ''content'', ''>\<newline>'',
       content_html,
       ''\<newline>    </div>\<newline>    <script src='', quoted ''script.js'',
       ''></script>\<newline></body>\<newline></html>\<newline>'']"
  have "generate_html_template title toc_html content_html
      = ?pre @ (''<title>'' @ title @ ''</title>'') @ ?post"
    by (simp add: generate_html_template_def)
  then show "sublist (''<title>'' @ title @ ''</title>'') (generate_html_template title toc_html content_html)"
    unfolding sublist_def by blast
qed



text \<open>The example document of the specification: two headings with the text \<^verbatim>\<open>Title\<close>.\<close>

definition example_document :: string where
  "example_document = ''# Title\<newline>\<newline>Some **bold** text.\<newline>\<newline>## Title\<newline>''"


subsection \<open>Documents without headings, and the page title\<close>

lemma grows_toc_prefix: "grows s s' \<Longrightarrow> prefix (toc s) (toc s')"
  by (auto simp: grows_def)

lemma toc_scan_lines_prefix: "prefix (toc s) (toc (scan_lines s ls))"
  unfolding scan_lines_def
proof (induction ls arbitrary: s)
  case Nil
  show ?case by simp
next
  case (Cons l ls)
  have "prefix (toc s) (toc (scan_line s l))"
    using grows_scan_line by (rule grows_toc_prefix)
  also have "prefix (toc (scan_line s l)) (toc (foldl scan_line (scan_line s l) ls))"
    by (rule Cons.IH)
  finally show ?case by simp
qed

lemma first_heading_stays:
  assumes "toc (scan_lines s pre) \<noteq> []"
  shows "toc (scan_lines s (pre @ post)) ! 0 = toc (scan_lines s pre) ! 0"
proof -
  have "scan_lines s (pre @ post) = scan_lines (scan_lines s pre) post"
    by (simp add: scan_lines_def)
  then have "prefix (toc (scan_lines s pre)) (toc (scan_lines s (pre @ post)))"
    by (simp add: toc_scan_lines_prefix)
  then obtain zs where "toc (scan_lines s (pre @ post)) = toc (scan_lines s pre) @ zs"
    by (auto simp: prefix_def)
  with assms show ?thesis
    by (simp add: nth_append)
qed

lemma generate_toc_html_nonempty: "entries \<noteq> [] \<Longrightarrow> generate_toc_html entries \<noteq> []"
  by (simp add: generate_toc_html_eq toc_header_def)

text \<open>
  C5. For a document whose heading sequence is empty, \<^verbatim>\<open>generate_toc_html\<close> returns the
  empty string and the page is the template with the title \<^verbatim>\<open>Document\<close>. For a document
  with a heading, the page is the template with the text of the first record as title, and
  that record is the first one that the scanner appended: the first record after any
  initial part of the lines, once there is one, is the first record of the whole document.
  The template puts the title between \<^verbatim>\<open><title>\<close> and \<^verbatim>\<open></title>\<close>.
\<close>

theorem page_title_and_toc:
  assumes "markdown_to_html markdown [] = (body, entries)"
  shows "(entries = [] \<longrightarrow>
            generate_toc_html entries = []
          \<and> render_page markdown = generate_html_template ''Document'' [] body)
    \<and> (entries \<noteq> [] \<longrightarrow>
            generate_toc_html entries \<noteq> []
          \<and> render_page markdown =
              generate_html_template (entry_text (entries ! 0)) (generate_toc_html entries) body)
    \<and> (\<forall>pre post. getlines CHR ''\<newline>'' markdown = pre @ post
          \<and> toc (scan_lines (scanner_init []) pre) \<noteq> []
          \<longrightarrow> entries ! 0 = toc (scan_lines (scanner_init []) pre) ! 0)
    \<and> sublist (''<title>'' @ page_title entries @ ''</title>'') (render_page markdown)"
proof -
  have p: "render_page markdown =
      generate_html_template (page_title entries) (generate_toc_html entries) body"
    by (simp add: render_page_def assms)
  have e: "entries = toc (scan_lines (scanner_init []) (getlines CHR ''\<newline>'' markdown))"
    using assms by (simp add: markdown_to_html_def Let_def)
  have a: "entries = [] \<longrightarrow>
            generate_toc_html entries = []
          \<and> render_page markdown = generate_html_template ''Document'' [] body"
    by (simp add: p page_title_def generate_toc_html_def)
  have b: "entries \<noteq> [] \<longrightarrow>
            generate_toc_html entries \<noteq> []
          \<and> render_page markdown =
              generate_html_template (entry_text (entries ! 0)) (generate_toc_html entries) body"
    by (simp add: p page_title_def generate_toc_html_nonempty)
  have c: "\<forall>pre post. getlines CHR ''\<newline>'' markdown = pre @ post
          \<and> toc (scan_lines (scanner_init []) pre) \<noteq> []
          \<longrightarrow> entries ! 0 = toc (scan_lines (scanner_init []) pre) ! 0"
    by (auto simp: e first_heading_stays)
  have d: "sublist (''<title>'' @ page_title entries @ ''</title>'') (render_page markdown)"
    unfolding p by (rule template_contains)
  from a b c d show ?thesis
    by blast
qed

theorem page_title_and_toc_witness:
  "markdown_to_html ''plain text'' [] = (''<p>plain text</p>\<newline>'', [])
   \<and> generate_toc_html [] = []
   \<and> render_page ''plain text'' = generate_html_template ''Document'' [] ''<p>plain text</p>\<newline>''
   \<and> snd (markdown_to_html example_document []) \<noteq> []
   \<and> getlines CHR ''\<newline>'' example_document = [''# Title''] @ ['''', ''Some **bold** text.'', '''', ''## Title'']
   \<and> toc (scan_lines (scanner_init []) [''# Title''])
       = [\<lparr>level = 1, entry_text = ''Title'', entry_id = ''title''\<rparr>]
   \<and> snd (markdown_to_html example_document []) ! 0
       = \<lparr>level = 1, entry_text = ''Title'', entry_id = ''title''\<rparr>
   \<and> render_page example_document =
       generate_html_template ''Title'' (generate_toc_html (snd (markdown_to_html example_document [])))
         (fst (markdown_to_html example_document []))"
proof -
  have m1: "markdown_to_html ''plain text'' [] = (''<p>plain text</p>\<newline>'', [])"
    by code_simp
  have m2: "markdown_to_html example_document [] =
      (fst (markdown_to_html example_document []), snd (markdown_to_html example_document []))"
    by simp
  have ne: "snd (markdown_to_html example_document []) \<noteq> []"
    by code_simp
  have g: "getlines CHR ''\<newline>'' example_document = [''# Title''] @ ['''', ''Some **bold** text.'', '''', ''## Title'']"
    by code_simp
  have t: "toc (scan_lines (scanner_init []) [''# Title''])
       = [\<lparr>level = 1, entry_text = ''Title'', entry_id = ''title''\<rparr>]"
    by code_simp
  from page_title_and_toc [OF m1]
  have w1: "generate_toc_html [] = []
     \<and> render_page ''plain text'' = generate_html_template ''Document'' [] ''<p>plain text</p>\<newline>''"
    by simp
  from page_title_and_toc [OF m2] ne
  have w2: "render_page example_document =
       generate_html_template (entry_text (snd (markdown_to_html example_document []) ! 0))
         (generate_toc_html (snd (markdown_to_html example_document [])))
         (fst (markdown_to_html example_document []))"
    by blast
  from page_title_and_toc [OF m2] g t
  have w3: "snd (markdown_to_html example_document []) ! 0 = toc (scan_lines (scanner_init []) [''# Title'']) ! 0"
    by (metis list.distinct(1))
  from m1 w1 ne g t w2 w3 show ?thesis
    by simp
qed

subsection \<open>The heading id assigner\<close>





text \<open>
  C1. The ids are not unique within every document: the third heading of the document
  below has the text \<^verbatim>\<open>Step 1\<close>, whose base id \<^verbatim>\<open>step-1\<close> is not registered, so it is
  returned unmodified, although the second heading \<^verbatim>\<open>Step\<close> has received \<^verbatim>\<open>step-1\<close>
  already: \<^verbatim>\<open>generate_unique_id\<close> registers base ids only, never the ids it returns.
\<close>

theorem heading_ids_collide:
  "map entry_id (snd (markdown_to_html ''# Step\<newline>## Step\<newline>## Step 1'' []))
     = [''step'', ''step-1'', ''step-1'']
   \<and> \<not> distinct (map entry_id (snd (markdown_to_html ''# Step\<newline>## Step\<newline>## Step 1'' [])))"
proof -
  have "map entry_id (snd (markdown_to_html ''# Step\<newline>## Step\<newline>## Step 1'' []))
     = [''step'', ''step-1'', ''step-1'']"
    by code_simp
  then show ?thesis
    by simp
qed

subsection \<open>Lines and their categories\<close>



















subsection \<open>Table mode is only active with buffered rows\<close>







subsection \<open>Lines inside a code block\<close>

text \<open>What a line that is no fence appends to the output while the scanner is in a code
  block.\<close>

definition code_line_html :: "string \<Rightarrow> string" where
  "code_line_html line =
     (if line = [] then []
      else if horizontal_rule_match line then ''<hr>\<newline>''
      else line @ ''\<newline>'')"

lemma scan_line_in_code_block:
  assumes "in_code_block s" and "code_block_match line = None"
  shows "scan_line s line = s\<lparr>html := html s @ code_line_html line\<rparr>"
  using assms by (simp add: scan_line_def code_line_html_def)

lemma scan_lines_in_code_block:
  assumes "in_code_block s" and "list_all (\<lambda>l. code_block_match l = None) ls"
  shows "scan_lines s ls = s\<lparr>html := html s @ concat (map code_line_html ls)\<rparr>"
  using assms
proof (induction ls arbitrary: s)
  case Nil
  then show ?case by (simp add: scan_lines_def)
next
  case (Cons l ls)
  from Cons.prems have step: "scan_line s l = s\<lparr>html := html s @ code_line_html l\<rparr>"
    by (simp add: scan_line_in_code_block)
  have "scan_lines s (l # ls) = scan_lines (scan_line s l) ls"
    by (simp add: scan_lines_def)
  also have "\<dots> = (scan_line s l)\<lparr>html := html (scan_line s l) @ concat (map code_line_html ls)\<rparr>"
    using Cons.prems by (intro Cons.IH) (simp_all add: step)
  finally show ?case
    by (simp add: step)
qed

text \<open>
  The claim as written (C2) fails for the two categories that the loop tests before it
  looks at the code-block flag: a blank line is skipped and a horizontal-rule line emits a
  rule element, inside a code block as well.
\<close>

theorem code_block_verbatim_counterexample:
  "\<not> (\<forall>s line. in_code_block s \<and> code_block_match line = None
         \<longrightarrow> html (scan_line s line) = html s @ line @ ''\<newline>'')
   \<and> fst (markdown_to_html
         (replicate 3 backtick @ ''\<newline>---\<newline>\<newline># x\<newline>'' @ replicate 3 backtick) [])
       = ''<pre><code>\<newline><hr>\<newline># x\<newline></code></pre>\<newline>''"
proof -
  let ?s = "(scanner_init [])\<lparr>in_code_block := True\<rparr>"
  have "in_code_block ?s \<and> code_block_match ''---'' = None
      \<and> html (scan_line ?s ''---'') \<noteq> html ?s @ ''---'' @ ''\<newline>''"
    by code_simp
  then have "\<not> (\<forall>s line. in_code_block s \<and> code_block_match line = None
         \<longrightarrow> html (scan_line s line) = html s @ line @ ''\<newline>'')"
    by blast
  moreover have "fst (markdown_to_html
         (replicate 3 backtick @ ''\<newline>---\<newline>\<newline># x\<newline>'' @ replicate 3 backtick) [])
       = ''<pre><code>\<newline><hr>\<newline># x\<newline></code></pre>\<newline>''"
    by code_simp
  ultimately show ?thesis
    by blast
qed

text \<open>
  C2, amended. While the scanner is in a code block, every line up to the closing fence
  that is neither blank nor a horizontal-rule line is appended verbatim, followed by a line
  feed and with no inline formatting, also when it looks like a heading or a table row; a
  blank line appends nothing and a horizontal-rule line appends a rule element. The
  scanner stays in the code block and changes nothing but its output.
\<close>

theorem code_block_lines:
  assumes "in_code_block s" and "list_all (\<lambda>l. code_block_match l = None) ls"
  shows "scan_lines s ls = s\<lparr>html := html s @ concat (map code_line_html ls)\<rparr>
    \<and> (list_all (\<lambda>l. l \<noteq> [] \<and> \<not> horizontal_rule_match l) ls
         \<longrightarrow> scan_lines s ls = s\<lparr>html := html s @ concat (map (\<lambda>l. l @ ''\<newline>'') ls)\<rparr>)
    \<and> (code_block_match line = None \<and> line \<noteq> [] \<and> \<not> horizontal_rule_match line
         \<longrightarrow> scan_line s line = s\<lparr>html := html s @ line @ ''\<newline>''\<rparr>)
    \<and> scan_line s [] = s
    \<and> (horizontal_rule_match line
         \<longrightarrow> scan_line s line = s\<lparr>html := html s @ code_line_html line\<rparr>
           \<and> code_line_html line \<noteq> line @ ''\<newline>'')"
proof -
  have a: "scan_lines s ls = s\<lparr>html := html s @ concat (map code_line_html ls)\<rparr>"
    using assms by (rule scan_lines_in_code_block)
  have b: "list_all (\<lambda>l. l \<noteq> [] \<and> \<not> horizontal_rule_match l) ls
         \<longrightarrow> scan_lines s ls = s\<lparr>html := html s @ concat (map (\<lambda>l. l @ ''\<newline>'') ls)\<rparr>"
  proof
    assume "list_all (\<lambda>l. l \<noteq> [] \<and> \<not> horizontal_rule_match l) ls"
    then have "map code_line_html ls = map (\<lambda>l. l @ ''\<newline>'') ls"
      by (simp add: list_all_iff code_line_html_def)
    with a show "scan_lines s ls = s\<lparr>html := html s @ concat (map (\<lambda>l. l @ ''\<newline>'') ls)\<rparr>"
      by simp
  qed
  have c: "code_block_match line = None \<and> line \<noteq> [] \<and> \<not> horizontal_rule_match line
         \<longrightarrow> scan_line s line = s\<lparr>html := html s @ line @ ''\<newline>''\<rparr>"
    using assms(1) by (simp add: scan_line_in_code_block code_line_html_def)
  have d: "scan_line s [] = s"
    by (simp add: scan_line_def)
  have e: "horizontal_rule_match line
         \<longrightarrow> scan_line s line = s\<lparr>html := html s @ code_line_html line\<rparr>
           \<and> code_line_html line \<noteq> line @ ''\<newline>''"
  proof
    assume h: "horizontal_rule_match line"
    then have ne: "line \<noteq> []"
      by (auto simp: horizontal_rule_match_def)
    with h have "scan_line s line = s\<lparr>html := html s @ code_line_html line\<rparr>"
      by (simp add: scan_line_def code_line_html_def)
    moreover have "code_line_html line \<noteq> line @ ''\<newline>''"
    proof
      assume "code_line_html line = line @ ''\<newline>''"
      with h ne have "''<hr>\<newline>'' = line @ ''\<newline>''"
        by (simp add: code_line_html_def)
      then have "line = ''<hr>''"
        by simp
      moreover have "\<not> horizontal_rule_match ''<hr>''"
        by code_simp
      ultimately show False
        using h by simp
    qed
    ultimately show "scan_line s line = s\<lparr>html := html s @ code_line_html line\<rparr>
           \<and> code_line_html line \<noteq> line @ ''\<newline>''"
      by blast
  qed
  from a b c d e show ?thesis
    by blast
qed

text \<open>A code block is open, and three lines follow that look like a heading, a table row
  and a paragraph with inline formatting.\<close>

definition code_state :: scanner where
  "code_state = scan_lines (scanner_init []) [replicate 3 backtick @ ''cpp'']"

definition code_lines :: "string list" where
  "code_lines = [''# not a heading'', ''| a | b |'', ''**x** and [l](u)'']"

theorem code_block_lines_witness:
  "in_code_block code_state
   \<and> list_all (\<lambda>l. code_block_match l = None) code_lines
   \<and> list_all (\<lambda>l. l \<noteq> [] \<and> \<not> horizontal_rule_match l) code_lines
   \<and> html (scan_lines code_state code_lines)
       = html code_state @ ''# not a heading\<newline>| a | b |\<newline>**x** and [l](u)\<newline>''
   \<and> toc (scan_lines code_state code_lines) = []
   \<and> table_rows (scan_lines code_state code_lines) = []
   \<and> horizontal_rule_match ''---''
   \<and> html (scan_line code_state ''---'') = html code_state @ ''<hr>\<newline>''"
proof -
  have h1: "in_code_block code_state" by code_simp
  have h2: "list_all (\<lambda>l. code_block_match l = None) code_lines" by code_simp
  have h3: "list_all (\<lambda>l. l \<noteq> [] \<and> \<not> horizontal_rule_match l) code_lines" by code_simp
  have h4: "horizontal_rule_match ''---''" by code_simp
  have t: "toc code_state = []" by code_simp
  have r: "table_rows code_state = []" by code_simp
  have c: "concat (map (\<lambda>l. l @ ''\<newline>'') code_lines)
      = ''# not a heading\<newline>| a | b |\<newline>**x** and [l](u)\<newline>''"
    by (simp add: code_lines_def)
  have k: "code_line_html ''---'' = ''<hr>\<newline>''" by code_simp
  note w = code_block_lines [OF h1 h2, of "''---''"]
  from w h3 have a: "scan_lines code_state code_lines
      = code_state\<lparr>html := html code_state @ concat (map (\<lambda>l. l @ ''\<newline>'') code_lines)\<rparr>"
    by blast
  from w h4 have b: "scan_line code_state ''---''
      = code_state\<lparr>html := html code_state @ code_line_html ''---''\<rparr>"
    by blast
  have a1: "html (scan_lines code_state code_lines)
       = html code_state @ ''# not a heading\<newline>| a | b |\<newline>**x** and [l](u)\<newline>''"
    unfolding a by (simp add: c)
  have a2: "toc (scan_lines code_state code_lines) = []"
    unfolding a by (simp add: t)
  have a3: "table_rows (scan_lines code_state code_lines) = []"
    unfolding a by (simp add: r)
  have b1: "html (scan_line code_state ''---'') = html code_state @ ''<hr>\<newline>''"
    unfolding b by (simp add: k)
  from h1 h2 h3 a1 a2 a3 h4 b1 show ?thesis
    by blast
qed

subsection \<open>The text of a heading\<close>














subsection \<open>Heading lines\<close>







text \<open>A line of \<open>n\<close> hash characters, a space and a text without line terminator matches
  the pattern of level \<open>n\<close>; the captured text starts behind the white space.\<close>

lemma heading_match_line:
  assumes "\<not> list_ex is_line_terminator t"
  shows "heading_match n (replicate n CHR ''#'' @ CHR '' '' # t) = Some (dropWhile isspace t)"
proof -
  have s: "isspace CHR '' ''"
    by (simp add: isspace_def)
  from assms have "\<not> list_ex is_line_terminator (dropWhile isspace t)"
    by (auto simp: list_ex_iff dest: set_dropWhileD)
  with s show ?thesis
    by (simp add: heading_match_def)
qed






subsection \<open>Missing command-line flags\<close>

lemma parse_loop_streams:
  "parse_loop args st = (ok, st') \<Longrightarrow>
     cerr st' = cerr st \<and> (if ok then cout st' = cout st else cout st' = cout st @ help_text)"
proof (induction args st arbitrary: ok st' rule: parse_loop.induct)
  case (1 st)
  then show ?case by auto
next
  case (2 arg rest st)
  show ?case
  proof (cases "is_help_flag arg")
    case True
    with "2.prems" show ?thesis
      by (auto simp: show_help_def)
  next
    case nh: False
    show ?thesis
    proof (cases "is_markdown_flag arg \<and> rest \<noteq> []")
      case True
      with nh "2.prems" have "parse_loop (tl rest) (st\<lparr>markdown_path := hd rest\<rparr>) = (ok, st')"
        by simp
      from "2.IH"(1) [OF nh True this] show ?thesis
        by simp
    next
      case nm: False
      show ?thesis
      proof (cases "is_output_flag arg \<and> rest \<noteq> []")
        case True
        with nh nm "2.prems" have "parse_loop (tl rest) (st\<lparr>output_path := hd rest\<rparr>) = (ok, st')"
          by simp
        from "2.IH"(2) [OF nh nm True this] show ?thesis
          by simp
      next
        case False
        with nh nm "2.prems" have "parse_loop rest st = (ok, st')"
          by auto
        from "2.IH"(3) [OF nh nm False this] show ?thesis
          by simp
      qed
    qed
  qed
qed

lemma parse_loop_no_markdown:
  "\<forall>a\<in>set args. \<not> is_markdown_flag a \<Longrightarrow> markdown_path (snd (parse_loop args st)) = markdown_path st"
proof (induction args st rule: parse_loop.induct)
  case (1 st)
  show ?case by simp
next
  case (2 arg rest st)
  from "2.prems" have na: "\<not> is_markdown_flag arg" and nr: "\<forall>a\<in>set rest. \<not> is_markdown_flag a"
    by simp_all
  show ?case
  proof (cases "is_help_flag arg")
    case True
    then show ?thesis by (simp add: show_help_def)
  next
    case nh: False
    show ?thesis
    proof (cases "is_output_flag arg \<and> rest \<noteq> []")
      case True
      from nr have "\<forall>a\<in>set (tl rest). \<not> is_markdown_flag a"
        by (meson list.set_sel(2) True)
      from "2.IH"(2) [OF nh _ True this] na nh True show ?thesis
        by simp
    next
      case False
      from "2.IH"(3) [OF nh _ False nr] na nh False show ?thesis
        by auto
    qed
  qed
qed

lemma parse_loop_no_output:
  "\<forall>a\<in>set args. \<not> is_output_flag a \<Longrightarrow> output_path (snd (parse_loop args st)) = output_path st"
proof (induction args st rule: parse_loop.induct)
  case (1 st)
  show ?case by simp
next
  case (2 arg rest st)
  from "2.prems" have na: "\<not> is_output_flag arg" and nr: "\<forall>a\<in>set rest. \<not> is_output_flag a"
    by simp_all
  show ?case
  proof (cases "is_help_flag arg")
    case True
    then show ?thesis by (simp add: show_help_def)
  next
    case nh: False
    show ?thesis
    proof (cases "is_markdown_flag arg \<and> rest \<noteq> []")
      case True
      from nr have "\<forall>a\<in>set (tl rest). \<not> is_output_flag a"
        by (meson list.set_sel(2) True)
      from "2.IH"(1) [OF nh True this] na nh True show ?thesis
        by simp
    next
      case False
      from "2.IH"(3) [OF nh False _ nr] na nh False show ?thesis
        by auto
    qed
  qed
qed

lemma parse_loop_no_help:
  "\<forall>a\<in>set args. \<not> is_help_flag a \<Longrightarrow> fst (parse_loop args st)"
proof (induction args st rule: parse_loop.induct)
  case (1 st)
  show ?case by simp
next
  case (2 arg rest st)
  from "2.prems" have nh: "\<not> is_help_flag arg" and nr: "\<forall>a\<in>set rest. \<not> is_help_flag a"
    by simp_all
  from nr have nt: "\<forall>a\<in>set (tl rest). \<not> is_help_flag a"
    by (metis list.sel(2) list.set_sel(2))
  show ?case
  proof (cases "is_markdown_flag arg \<and> rest \<noteq> []")
    case True
    from "2.IH"(1) [OF nh True nt] nh True show ?thesis
      by simp
  next
    case nm: False
    show ?thesis
    proof (cases "is_output_flag arg \<and> rest \<noteq> []")
      case True
      from "2.IH"(2) [OF nh nm True nt] nh nm True show ?thesis
        by simp
    next
      case False
      from "2.IH"(3) [OF nh nm False nr] nh nm False show ?thesis
        by auto
    qed
  qed
qed

lemma parse_args_missing:
  assumes "(\<forall>a\<in>set (drop 1 argv). \<not> is_markdown_flag a) \<or> (\<forall>a\<in>set (drop 1 argv). \<not> is_output_flag a)"
    and "markdown_path st = []" and "output_path st = []" and "cout st = []" and "cerr st = []"
  shows "fst (parse_args argv st) = False
    \<and> cout (snd (parse_args argv st)) = help_text
    \<and> (cerr (snd (parse_args argv st)) = [] \<or> cerr (snd (parse_args argv st)) = missing_flags_message)
    \<and> ((\<forall>a\<in>set (drop 1 argv). \<not> is_help_flag a)
         \<longrightarrow> cerr (snd (parse_args argv st)) = missing_flags_message)"
proof -
  obtain ok st1 where p: "parse_loop (drop 1 argv) st = (ok, st1)"
    by (cases "parse_loop (drop 1 argv) st")
  from parse_loop_streams [OF p] assms(4,5)
  have e: "cerr st1 = []" and o: "if ok then cout st1 = [] else cout st1 = help_text"
    by (simp_all split: if_splits)
  from assms(1) have m: "markdown_path st1 = [] \<or> output_path st1 = []"
  proof
    assume "\<forall>a\<in>set (drop 1 argv). \<not> is_markdown_flag a"
    from parse_loop_no_markdown [OF this, of st] show ?thesis
      unfolding p by (simp add: assms(2))
  next
    assume "\<forall>a\<in>set (drop 1 argv). \<not> is_output_flag a"
    from parse_loop_no_output [OF this, of st] show ?thesis
      unfolding p by (simp add: assms(3))
  qed
  show ?thesis
  proof (cases ok)
    case True
    with m have r: "parse_args argv st = (False, show_help (st1\<lparr>cerr := cerr st1 @ missing_flags_message\<rparr>))"
      unfolding parse_args_def p by auto
    from True o e show ?thesis
      unfolding r by (simp add: show_help_def)
  next
    case False
    then have r: "parse_args argv st = (False, st1)"
      unfolding parse_args_def p by simp
    have "\<not> (\<forall>a\<in>set (drop 1 argv). \<not> is_help_flag a)"
    proof
      assume "\<forall>a\<in>set (drop 1 argv). \<not> is_help_flag a"
      from parse_loop_no_help [OF this, of st] False show False
        unfolding p by simp
    qed
    with False o e show ?thesis
      unfolding r by auto
  qed
qed

text \<open>
  The claim as written (C9) fails in where the usage text goes: \<^verbatim>\<open>parse_args\<close> writes one
  line of error message to \<^verbatim>\<open>std::cerr\<close> and then calls \<^verbatim>\<open>show_help\<close>, which writes the
  usage text to \<^verbatim>\<open>std::cout\<close>.
\<close>

definition no_files :: filesystem where
  "no_files =
     \<lparr>fs_exists = (\<lambda>p. Some False), fs_read = (\<lambda>p. None), fs_create_directories = (\<lambda>p. True),
      fs_can_write = (\<lambda>p. True), fs_parent_path = (\<lambda>p. []), fs_append = (\<lambda>d f. f)\<rparr>"

theorem usage_on_error_stream_counterexample:
  "\<not> (\<forall>fs css js argv.
         (\<forall>a\<in>set (drop 1 argv). \<not> is_markdown_flag a) \<or> (\<forall>a\<in>set (drop 1 argv). \<not> is_output_flag a)
         \<longrightarrow> sublist help_text (run_cerr (main fs css js argv)))
   \<and> run_cerr (main no_files [] [] [''m2h'']) = missing_flags_message
   \<and> run_cout (main no_files [] [] [''m2h'']) = help_text"
proof -
  have a: "run_cerr (main no_files [] [] [''m2h'']) = missing_flags_message"
    by code_simp
  have b: "run_cout (main no_files [] [] [''m2h'']) = help_text"
    by code_simp
  have c: "\<not> sublist help_text (run_cerr (main no_files [] [] [''m2h'']))"
    by code_simp
  have d: "(\<forall>a\<in>set (drop 1 [''m2h'']). \<not> is_markdown_flag a)
      \<or> (\<forall>a\<in>set (drop 1 [''m2h'']). \<not> is_output_flag a)"
    by simp
  from c d have "\<not> (\<forall>fs css js argv.
         (\<forall>a\<in>set (drop 1 argv). \<not> is_markdown_flag a) \<or> (\<forall>a\<in>set (drop 1 argv). \<not> is_output_flag a)
         \<longrightarrow> sublist help_text (run_cerr (main fs css js argv)))"
    by blast
  with a b show ?thesis
    by blast
qed

text \<open>
  C9, amended. When \<^verbatim>\<open>-m\<close>/\<^verbatim>\<open>--markdown\<close> or \<^verbatim>\<open>-o\<close>/\<^verbatim>\<open>--output\<close> does not occur among
  the arguments, the program ends with exit status 1, has read and written no file, and
  has written the usage text to the standard output; the error stream holds the message
  that both files are required, or nothing when a help flag came first.
\<close>

theorem missing_required_flag:
  assumes "(\<forall>a\<in>set (drop 1 argv). \<not> is_markdown_flag a) \<or> (\<forall>a\<in>set (drop 1 argv). \<not> is_output_flag a)"
  shows "exit_status (main fs css js argv) = Some 1
    \<and> run_cout (main fs css js argv) = help_text
    \<and> (run_cerr (main fs css js argv) = [] \<or> run_cerr (main fs css js argv) = missing_flags_message)
    \<and> ((\<forall>a\<in>set (drop 1 argv). \<not> is_help_flag a)
         \<longrightarrow> run_cerr (main fs css js argv) = missing_flags_message)
    \<and> files_read (main fs css js argv) = []
    \<and> files_written (main fs css js argv) = []"
proof -
  let ?st = "\<lparr>markdown_path = [], output_path = [], cout = [], cerr = []\<rparr>"
  obtain ok st1 where p: "parse_args argv ?st = (ok, st1)"
    by (cases "parse_args argv ?st")
  from parse_args_missing [OF assms, of ?st]
  have ok: "\<not> ok" and o: "cout st1 = help_text"
    and e: "cerr st1 = [] \<or> cerr st1 = missing_flags_message"
    and h: "(\<forall>a\<in>set (drop 1 argv). \<not> is_help_flag a) \<longrightarrow> cerr st1 = missing_flags_message"
    by (simp_all add: p)
  from ok have m: "main fs css js argv =
      \<lparr>exit_status = Some 1, run_cout = cout st1, run_cerr = cerr st1,
       files_read = [], files_written = []\<rparr>"
    by (simp add: main_def p exit_with_def)
  from o e h show ?thesis
    unfolding m by simp
qed

theorem missing_required_flag_witness:
  "list_all (\<lambda>a. \<not> is_output_flag a) (drop 1 [''m2h'', ''-m'', ''in.md''])
   \<and> list_all (\<lambda>a. \<not> is_help_flag a) (drop 1 [''m2h'', ''-m'', ''in.md''])
   \<and> exit_status (main no_files [] [] [''m2h'', ''-m'', ''in.md'']) = Some 1
   \<and> run_cout (main no_files [] [] [''m2h'', ''-m'', ''in.md'']) = help_text
   \<and> run_cerr (main no_files [] [] [''m2h'', ''-m'', ''in.md'']) = missing_flags_message
   \<and> files_read (main no_files [] [] [''m2h'', ''-m'', ''in.md'']) = []
   \<and> files_written (main no_files [] [] [''m2h'', ''-m'', ''in.md'']) = []"
proof -
  have h1: "\<forall>a\<in>set (drop 1 [''m2h'', ''-m'', ''in.md'']). \<not> is_output_flag a"
    by (simp add: is_output_flag_def)
  have h2: "\<forall>a\<in>set (drop 1 [''m2h'', ''-m'', ''in.md'']). \<not> is_help_flag a"
    by (simp add: is_help_flag_def)
  from h1 have h: "(\<forall>a\<in>set (drop 1 [''m2h'', ''-m'', ''in.md'']). \<not> is_markdown_flag a)
      \<or> (\<forall>a\<in>set (drop 1 [''m2h'', ''-m'', ''in.md'']). \<not> is_output_flag a)"
    by (rule disjI2)
  from h1 have l1: "list_all (\<lambda>a. \<not> is_output_flag a) (drop 1 [''m2h'', ''-m'', ''in.md''])"
    by (simp add: list_all_iff)
  from h2 have l2: "list_all (\<lambda>a. \<not> is_help_flag a) (drop 1 [''m2h'', ''-m'', ''in.md''])"
    by (simp add: list_all_iff)
  from missing_required_flag [OF h, of no_files "[]" "[]"] h2 l1 l2 show ?thesis
    by blast
qed

subsection \<open>Ids of headings with the same base id\<close>

text \<open>The id that the specification gives to a base id, from the base ids of the headings
  before it: unmodified at the first occurrence, with the number of earlier occurrences
  as suffix afterwards. The registry after these headings holds, for every base id that
  has occurred, the number of its occurrences less one.\<close>

definition spec_id :: "string list \<Rightarrow> string \<Rightarrow> string" where
  "spec_id seen base =
     (if count_list seen base = 0 then base
      else base @ ''-'' @ to_string (int (count_list seen base)))"

fun spec_ids :: "string list \<Rightarrow> string list \<Rightarrow> string list" where
  "spec_ids seen [] = []"
| "spec_ids seen (b # bs) = spec_id seen b # spec_ids (seen @ [b]) bs"

definition registry_of :: "string list \<Rightarrow> (string \<rightharpoonup> int)" where
  "registry_of seen =
     (\<lambda>base. if count_list seen base = 0 then None else Some (int (count_list seen base) - 1))"

definition bases :: "TocEntry list \<Rightarrow> string list" where
  "bases entries = map (\<lambda>e. sanitize_id (entry_text e)) entries"

definition ids_invariant :: "scanner \<Rightarrow> bool" where
  "ids_invariant s \<longleftrightarrow>
     id_counts s = registry_of (bases (toc s)) \<and> map entry_id (toc s) = spec_ids [] (bases (toc s))"

lemma generate_unique_id_registry:
  "generate_unique_id text (registry_of seen) =
     (spec_id seen (sanitize_id text), registry_of (seen @ [sanitize_id text]))"
proof -
  let ?b = "sanitize_id text"
  have r: "registry_of (seen @ [?b]) = (registry_of seen)(?b \<mapsto> int (count_list seen ?b))"
    by (rule ext) (simp add: registry_of_def)
  show ?thesis
  proof (cases "count_list seen ?b = 0")
    case True
    then have "registry_of seen ?b = None"
      by (simp add: registry_of_def)
    with True show ?thesis
      unfolding r by (simp add: generate_unique_id_def spec_id_def Let_def)
  next
    case False
    then have "registry_of seen ?b = Some (int (count_list seen ?b) - 1)"
      by (simp add: registry_of_def)
    with False show ?thesis
      unfolding r by (simp add: generate_unique_id_def spec_id_def Let_def)
  qed
qed

lemma spec_ids_snoc: "spec_ids seen (bs @ [b]) = spec_ids seen bs @ [spec_id (seen @ bs) b]"
  by (induction bs arbitrary: seen) simp_all

lemma ids_invariant_emit_heading:
  assumes "ids_invariant s"
  shows "ids_invariant (emit_heading n captured s)"
proof -
  let ?t = "clean_header_text captured"
  from assms have c: "id_counts s = registry_of (bases (toc s))"
    and i: "map entry_id (toc s) = spec_ids [] (bases (toc s))"
    by (simp_all add: ids_invariant_def)
  have g: "generate_unique_id ?t (id_counts s) =
      (spec_id (bases (toc s)) (sanitize_id ?t), registry_of (bases (toc s) @ [sanitize_id ?t]))"
    unfolding c by (rule generate_unique_id_registry)
  show ?thesis
    unfolding ids_invariant_def
    by (simp add: emit_heading_out g bases_def spec_ids_snoc i [unfolded bases_def])
qed

lemma ids_invariant_emit_paragraph:
  "ids_invariant s \<Longrightarrow> ids_invariant (emit_paragraph line s)"
  by (simp add: ids_invariant_def emit_paragraph_fields)

lemma ids_invariant_heading_or_text:
  "ids_invariant s \<Longrightarrow> ids_invariant (scan_heading_or_text line s)"
  unfolding scan_heading_or_text_def
  by (simp split: option.splits add: ids_invariant_emit_heading ids_invariant_emit_paragraph)

lemma ids_invariant_update:
  "ids_invariant (s\<lparr>html := h\<rparr>) = ids_invariant s"
  "ids_invariant (s\<lparr>table_rows := r\<rparr>) = ids_invariant s"
  "ids_invariant (s\<lparr>in_table := t\<rparr>) = ids_invariant s"
  "ids_invariant (s\<lparr>in_code_block := c\<rparr>) = ids_invariant s"
  "ids_invariant (s\<lparr>code_lang := l\<rparr>) = ids_invariant s"
  by (simp_all add: ids_invariant_def)

lemma ids_invariant_scan_table: "ids_invariant s \<Longrightarrow> ids_invariant (scan_table line s)"
  unfolding scan_table_def
  by (simp add: ids_invariant_heading_or_text ids_invariant_update)

lemma ids_invariant_scan_line: "ids_invariant s \<Longrightarrow> ids_invariant (scan_line s line)"
  unfolding scan_line_def
  by (simp split: option.splits add: ids_invariant_scan_table ids_invariant_update)

lemma ids_invariant_scan_lines: "ids_invariant s \<Longrightarrow> ids_invariant (scan_lines s ls)"
  unfolding scan_lines_def
  by (induction ls arbitrary: s) (simp_all add: ids_invariant_scan_line)

lemma document_ids:
  "map entry_id (snd (markdown_to_html markdown [])) =
     spec_ids [] (bases (snd (markdown_to_html markdown [])))"
proof -
  have "ids_invariant (scanner_init [])"
    by (simp add: ids_invariant_def scanner_init_def bases_def registry_of_def)
  then have "ids_invariant (scan_lines (scanner_init []) (getlines CHR ''\<newline>'' markdown))"
    by (rule ids_invariant_scan_lines)
  then show ?thesis
    by (simp add: markdown_to_html_def Let_def ids_invariant_def)
qed

text \<open>\<^verbatim>\<open>std::to_string\<close> is injective on the counters: the digits determine the number.\<close>

definition digit_value :: "char \<Rightarrow> nat" where
  "digit_value c = length (takeWhile (\<lambda>d. d \<noteq> c) digit_chars)"

definition parse_nat :: "string \<Rightarrow> nat" where
  "parse_nat s = foldl (\<lambda>a c. 10 * a + digit_value c) 0 s"

lemma digit_value_digit_char: "d < 10 \<Longrightarrow> digit_value (digit_char d) = d"
proof -
  assume "d < 10"
  then have "d = 0 \<or> d = 1 \<or> d = 2 \<or> d = 3 \<or> d = 4 \<or> d = 5 \<or> d = 6 \<or> d = 7 \<or> d = 8 \<or> d = 9"
    by arith
  then show ?thesis
    by (elim disjE) (simp_all add: digit_value_def digit_char_def digit_chars_def)
qed

lemma parse_to_string_nat: "parse_nat (to_string_nat n) = n"
proof (induction n rule: to_string_nat.induct)
  case (1 n)
  show ?case
  proof (cases "n < 10")
    case True
    then show ?thesis
      by (subst to_string_nat.simps) (simp add: parse_nat_def digit_value_digit_char)
  next
    case False
    then have "to_string_nat n = to_string_nat (n div 10) @ [digit_char (n mod 10)]"
      by (subst to_string_nat.simps) simp
    then have "parse_nat (to_string_nat n) =
        10 * parse_nat (to_string_nat (n div 10)) + digit_value (digit_char (n mod 10))"
      by (simp add: parse_nat_def)
    with "1.IH" [OF False] show ?thesis
      by (simp add: digit_value_digit_char)
  qed
qed

lemma to_string_int_inj: "to_string (int a) = to_string (int b) \<Longrightarrow> a = b"
proof -
  assume "to_string (int a) = to_string (int b)"
  then have "to_string_nat a = to_string_nat b"
    by (simp add: to_string_def)
  then have "parse_nat (to_string_nat a) = parse_nat (to_string_nat b)"
    by simp
  then show ?thesis
    by (simp only: parse_to_string_nat)
qed

lemma spec_id_differs:
  assumes "count_list seen1 base \<noteq> count_list seen2 base"
  shows "spec_id seen1 base \<noteq> spec_id seen2 base"
proof
  assume e: "spec_id seen1 base = spec_id seen2 base"
  show False
  proof (cases "count_list seen1 base = 0 \<or> count_list seen2 base = 0")
    case True
    with assms e show ?thesis
      by (auto simp: spec_id_def split: if_splits)
  next
    case False
    with e have "to_string (int (count_list seen1 base)) = to_string (int (count_list seen2 base))"
      by (simp add: spec_id_def)
    with assms show ?thesis
      by (auto dest: to_string_int_inj)
  qed
qed

lemma spec_ids_nth:
  "i < length bs \<Longrightarrow> spec_ids seen bs ! i = spec_id (seen @ take i bs) (bs ! i)"
proof (induction bs arbitrary: seen i)
  case Nil
  then show ?case by simp
next
  case (Cons b bs)
  show ?case
  proof (cases i)
    case 0
    then show ?thesis by simp
  next
    case (Suc k)
    with Cons.prems have "k < length bs" by simp
    from Cons.IH [OF this, of "seen @ [b]"] Suc show ?thesis
      by simp
  qed
qed

lemma count_list_take_le: "count_list (take n xs) x \<le> count_list xs x"
proof -
  have "count_list xs x = count_list (take n xs @ drop n xs) x"
    by (simp only: append_take_drop_id)
  then show ?thesis
    by (simp only: count_list_append)
qed

lemma count_list_take_less:
  assumes "i < j" and "j \<le> length bs"
  shows "count_list (take i bs) (bs ! i) < count_list (take j bs) (bs ! i)"
proof -
  from assms have "i < length bs"
    by simp
  then have "take (Suc i) bs = take i bs @ [bs ! i]"
    by (rule take_Suc_conv_app_nth)
  then have a: "count_list (take (Suc i) bs) (bs ! i) = count_list (take i bs) (bs ! i) + 1"
    by simp
  from assms(1) have "take (Suc i) bs = take (Suc i) (take j bs)"
    by (simp add: min_def)
  then have "count_list (take (Suc i) bs) (bs ! i) \<le> count_list (take j bs) (bs ! i)"
    by (simp only: count_list_take_le)
  with a show ?thesis
    by simp
qed

text \<open>
  The part of the uniqueness claim that holds: the ids of the headings of a document are those that the
  specification describes (the base id at its first occurrence, then the base id with
  the number of earlier occurrences as suffix), and two headings with the same base id
  never receive the same id.
\<close>

lemma same_base_ids_differ:
  assumes "i < j" and "j < length (snd (markdown_to_html markdown []))"
    and "sanitize_id (entry_text (snd (markdown_to_html markdown []) ! i))
       = sanitize_id (entry_text (snd (markdown_to_html markdown []) ! j))"
  shows "entry_id (snd (markdown_to_html markdown []) ! i)
       \<noteq> entry_id (snd (markdown_to_html markdown []) ! j)"
proof -
  let ?es = "snd (markdown_to_html markdown [])"
  let ?bs = "bases ?es"
  from assms(1,2) have li: "i < length ?bs" and lj: "j < length ?bs"
    by (simp_all add: bases_def)
  from assms(3) li lj have b: "?bs ! i = ?bs ! j"
    by (simp add: bases_def)
  have "entry_id (?es ! i) = map entry_id ?es ! i" and "entry_id (?es ! j) = map entry_id ?es ! j"
    using assms(1,2) by simp_all
  then have "entry_id (?es ! i) = spec_id (take i ?bs) (?bs ! i)"
    and "entry_id (?es ! j) = spec_id (take j ?bs) (?bs ! i)"
    using li lj by (simp_all add: document_ids spec_ids_nth b)
  moreover have "count_list (take i ?bs) (?bs ! i) \<noteq> count_list (take j ?bs) (?bs ! i)"
    using count_list_take_less [OF assms(1), of ?bs] lj by simp
  ultimately show ?thesis
    by (simp add: spec_id_differs)
qed

end
